theory Spec2Isabelle
  imports Main "HOL-Library.Word" "HOL-Library.AList"
begin

unbundle bit_operations_syntax

section \<open>The reflect package, as far as schema.go uses it\<close>

text \<open>
  The kinds of Go's \<^verbatim>\<open>reflect.Kind\<close>, written \<^verbatim>\<open>reflect.Int\<close> in the source.
\<close>

datatype kind =
    reflect_Invalid | reflect_Bool
  | reflect_Int | reflect_Int8 | reflect_Int16 | reflect_Int32 | reflect_Int64
  | reflect_Uint | reflect_Uint8 | reflect_Uint16 | reflect_Uint32 | reflect_Uint64
  | reflect_Uintptr | reflect_Float32 | reflect_Float64
  | reflect_Complex64 | reflect_Complex128
  | reflect_Array | reflect_Chan | reflect_Func | reflect_Interface | reflect_Map
  | reflect_Ptr | reflect_Slice | reflect_String | reflect_Struct
  | reflect_UnsafePointer

type_synonym uintptr = "64 word"

text \<open>
  The kinds of the types that have neither an element, nor fields, nor an interface's
  method list for schema.go: every kind but \<^verbatim>\<open>Ptr\<close>, \<^verbatim>\<open>Struct\<close>, \<^verbatim>\<open>Interface\<close> and \<^verbatim>\<open>Invalid\<close>.
\<close>

datatype basic =
    B_Bool
  | B_Int | B_Int8 | B_Int16 | B_Int32 | B_Int64
  | B_Uint | B_Uint8 | B_Uint16 | B_Uint32 | B_Uint64
  | B_Uintptr | B_Float32 | B_Float64 | B_Complex64 | B_Complex128
  | B_Array | B_Chan | B_Func | B_Map | B_Slice | B_String | B_UnsafePointer

fun basic_kind :: "basic \<Rightarrow> kind" where
  "basic_kind B_Bool = reflect_Bool"
| "basic_kind B_Int = reflect_Int"
| "basic_kind B_Int8 = reflect_Int8"
| "basic_kind B_Int16 = reflect_Int16"
| "basic_kind B_Int32 = reflect_Int32"
| "basic_kind B_Int64 = reflect_Int64"
| "basic_kind B_Uint = reflect_Uint"
| "basic_kind B_Uint8 = reflect_Uint8"
| "basic_kind B_Uint16 = reflect_Uint16"
| "basic_kind B_Uint32 = reflect_Uint32"
| "basic_kind B_Uint64 = reflect_Uint64"
| "basic_kind B_Uintptr = reflect_Uintptr"
| "basic_kind B_Float32 = reflect_Float32"
| "basic_kind B_Float64 = reflect_Float64"
| "basic_kind B_Complex64 = reflect_Complex64"
| "basic_kind B_Complex128 = reflect_Complex128"
| "basic_kind B_Array = reflect_Array"
| "basic_kind B_Chan = reflect_Chan"
| "basic_kind B_Func = reflect_Func"
| "basic_kind B_Map = reflect_Map"
| "basic_kind B_Slice = reflect_Slice"
| "basic_kind B_String = reflect_String"
| "basic_kind B_UnsafePointer = reflect_UnsafePointer"

text \<open>
  A \<^verbatim>\<open>reflect.Type\<close>. Two types are the same Go type iff the values are equal.
  \<^item> \<open>Basic n k\<close>: the type named \<open>n\<close> of the basic kind \<open>k\<close> (\<^verbatim>\<open>int64\<close>, \<^verbatim>\<open>string\<close>,
    \<^verbatim>\<open>type ID int64\<close>, and also slices, maps, functions, which schema.go only rejects);
  \<^item> \<open>PtrTo t\<close>: the pointer type \<^verbatim>\<open>*t\<close>;
  \<^item> \<open>StructOf n fs\<close>: a struct type and its own fields, each with its name, its \<^verbatim>\<open>Offset\<close>
    and its \<^verbatim>\<open>Type\<close>, as \<^verbatim>\<open>reflect.StructField\<close> gives them (an embedded struct is one
    field, named as its type; the fields promoted from it are not in \<open>fs\<close>);
  \<^item> \<open>InterfaceOf n ms\<close>: an interface type and the names of the methods it asks for.
\<close>

datatype rtype =
    Basic string basic
  | PtrTo rtype
  | StructOf string "(string \<times> uintptr \<times> rtype) list"
  | InterfaceOf string "string list"

fun Kind :: "rtype \<Rightarrow> kind" where
  "Kind (Basic n k) = basic_kind k"
| "Kind (PtrTo t) = reflect_Ptr"
| "Kind (StructOf n fs) = reflect_Struct"
| "Kind (InterfaceOf n ms) = reflect_Interface"

text \<open>
  What a panic carries: a Go \<^verbatim>\<open>error\<close> value (the errors of schema.go, and the runtime's
  errors), or a value that is no error (package reflect panics with strings).
\<close>

datatype Attr = Self | Type | User string

datatype error =
    too_many_attributes
  | type_mismatch_for error Attr
  | does_not_implement rtype rtype
  | is_not rtype rtype
  | is_not_a_pointer_to_a_struct rtype
  | has_unsupported_type string rtype rtype
  | is_not_a_field rtype string
  | unknown_attribute Attr string
  | runtime_error string
  | failed_to_construct_schema error
  | AssertionFailed_failed_to_construct_schema string

datatype panic_value = PError error | PString string

text \<open>\<^verbatim>\<open>t.String()\<close>: the name of the type, a pointer type's being \<^verbatim>\<open>*\<close> and its element's.\<close>

fun type_String :: "rtype \<Rightarrow> string" where
  "type_String (Basic n k) = n"
| "type_String (PtrTo t) = CHR ''*'' # type_String t"
| "type_String (StructOf n fs) = n"
| "type_String (InterfaceOf n ms) = n"

text \<open>\<^verbatim>\<open>t.Elem()\<close>: the element of a pointer type; reflect panics on the kinds modelled here
  that have none.\<close>

fun Elem :: "rtype \<Rightarrow> panic_value + rtype" where
  "Elem (PtrTo t) = Inr t"
| "Elem t = Inl (PString (''reflect: Elem of invalid type '' @ type_String t))"

text \<open>
  What the program is run with: the method names of each type that is no interface
  (package reflect knows them from the binary), the fields that a struct type has by
  promotion from the structs it embeds (\<open>promotedField E t n\<close> is what reflect's search
  through the embedded fields of \<open>t\<close> finds for the name \<open>n\<close>, the \<^verbatim>\<open>Offset\<close> being the one
  in the struct that declares the field), the order \<^verbatim>\<open>compareTypes\<close> (declared in another
  file of package rel; it returns \<^verbatim>\<open>(less, eq)\<close>) and the constant \<^verbatim>\<open>maxUserAttribute\<close>
  (declared in another file of package rel).
\<close>

record env =
  methodsOf :: "rtype \<Rightarrow> string list"
  promotedField :: "rtype \<Rightarrow> string \<Rightarrow> (uintptr \<times> rtype) option"
  compareTypes :: "rtype \<Rightarrow> rtype \<Rightarrow> bool \<times> bool"
  maxUserAttribute :: nat

text \<open>\<^verbatim>\<open>t.FieldByName(n)\<close>: the \<^verbatim>\<open>Offset\<close> and the \<^verbatim>\<open>Type\<close> of the field found, and whether
  one was found. reflect looks among the fields of the struct itself first, and for a name
  that none of them has among the promoted fields; it panics when \<open>t\<close> is no struct.\<close>

fun FieldByName :: "env \<Rightarrow> rtype \<Rightarrow> string \<Rightarrow> panic_value + (uintptr \<times> rtype) option" where
  "FieldByName E (StructOf n fs) f =
     Inr (case map_of fs f of
            Some sf \<Rightarrow> Some sf
          | None \<Rightarrow> promotedField E (StructOf n fs) f)"
| "FieldByName E t f =
     Inl (PString (''reflect: FieldByName of non-struct type '' @ type_String t))"

fun MethodSet :: "env \<Rightarrow> rtype \<Rightarrow> string list" where
  "MethodSet E (InterfaceOf n ms) = ms"
| "MethodSet E t = methodsOf E t"

text \<open>\<^verbatim>\<open>typ.Implements(u)\<close>: every method of the interface \<open>u\<close> is in the method set of
  \<open>typ\<close>; reflect panics when \<open>u\<close> is no interface.\<close>

fun Implements :: "env \<Rightarrow> rtype \<Rightarrow> rtype \<Rightarrow> panic_value + bool" where
  "Implements E typ (InterfaceOf n ms) = Inr (list_all (\<lambda>m. m \<in> set (MethodSet E typ)) ms)"
| "Implements E typ u = Inl (PString ''reflect: non-interface type passed to Type.Implements'')"

text \<open>Modelled from the spec: the declared type of \<^verbatim>\<open>Self\<close> is the unconstrained
  capability (\<^verbatim>\<open>interface{}\<close>), that of \<^verbatim>\<open>Type\<close> the runtime type descriptor
  (\<^verbatim>\<open>reflect.Type\<close>); both variables are declared in another file of package rel.\<close>

definition emptyInterfaceType :: rtype where
  "emptyInterfaceType = InterfaceOf ''interface {}'' []"

definition reflectTypeType :: rtype where
  "reflectTypeType = InterfaceOf ''reflect.Type'' [''Elem'', ''Implements'', ''Kind'', ''String'']"

section \<open>Memory and reflect values\<close>

text \<open>
  The accessors read the caller's records through raw addresses. A memory maps an address
  to what is stored there: a signed or unsigned integer, a string, or a pointer (0 is nil).
\<close>

datatype cell = CInt int | CUint nat | CString string | CPtr uintptr | CNone

type_synonym memory = "uintptr \<Rightarrow> cell"

text \<open>What \<^verbatim>\<open>interface{}\<close> holds: nil, or a value with its dynamic type. Go's \<^verbatim>\<open>==\<close> on
  two such values is equality of the type and of the value, a pointer's value being its
  address.\<close>

datatype iface =
    nil
  | I_int rtype int
  | I_uint rtype nat
  | I_string rtype string
  | I_ptr rtype uintptr

text \<open>
  A \<^verbatim>\<open>reflect.Value\<close>: \<open>Pointer t p\<close> is a pointer of type \<^verbatim>\<open>*t\<close> holding the address \<open>p\<close>
  (what \<^verbatim>\<open>reflect.NewAt\<close> makes), \<open>Stored t p\<close> is the value of type \<open>t\<close> stored at
  address \<open>p\<close>, \<open>Zero\<close> is the zero Value.
\<close>

datatype Value = Pointer rtype uintptr | Stored rtype uintptr | Zero

definition NewAt :: "rtype \<Rightarrow> uintptr \<Rightarrow> Value" where
  "NewAt t p = Pointer t p"

text \<open>
  The operations below return \<open>None\<close> where reflect panics, or where the memory does not
  hold what the type says (the spec leaves that undefined).
\<close>

fun Value_Elem :: "memory \<Rightarrow> Value \<Rightarrow> Value option" where
  "Value_Elem h (Pointer t p) = Some (if p = 0 then Zero else Stored t p)"
| "Value_Elem h (Stored (PtrTo t) a) =
     (case h a of CPtr p \<Rightarrow> Some (if p = 0 then Zero else Stored t p) | _ \<Rightarrow> None)"
| "Value_Elem h v = None"

fun IsNil :: "memory \<Rightarrow> Value \<Rightarrow> bool option" where
  "IsNil h (Pointer t p) = Some (p = 0)"
| "IsNil h (Stored (PtrTo t) a) = (case h a of CPtr p \<Rightarrow> Some (p = 0) | _ \<Rightarrow> None)"
| "IsNil h v = None"

definition isIntKind :: "kind \<Rightarrow> bool" where
  \<comment> \<open>Modelled from the spec: the signed integer kinds (the function is declared in
      another file of package rel).\<close>
  "isIntKind k = (k \<in> {reflect_Int, reflect_Int8, reflect_Int16, reflect_Int32, reflect_Int64})"

definition isUintKind :: "kind \<Rightarrow> bool" where
  \<comment> \<open>Modelled from the spec: the unsigned integer kinds (the function is declared in
      another file of package rel).\<close>
  "isUintKind k =
     (k \<in> {reflect_Uint, reflect_Uint8, reflect_Uint16, reflect_Uint32, reflect_Uint64})"

fun Interface :: "memory \<Rightarrow> Value \<Rightarrow> iface option" where
  "Interface h (Pointer t p) = Some (I_ptr (PtrTo t) p)"
| "Interface h (Stored t a) =
     (if Kind t = reflect_Ptr then (case h a of CPtr p \<Rightarrow> Some (I_ptr t p) | _ \<Rightarrow> None)
      else if Kind t = reflect_String then
        (case h a of CString s \<Rightarrow> Some (I_string t s) | _ \<Rightarrow> None)
      else if isIntKind (Kind t) then (case h a of CInt i \<Rightarrow> Some (I_int t i) | _ \<Rightarrow> None)
      else if isUintKind (Kind t) then (case h a of CUint n \<Rightarrow> Some (I_uint t n) | _ \<Rightarrow> None)
      else None)"
| "Interface h Zero = None"

fun Value_Int :: "memory \<Rightarrow> Value \<Rightarrow> int option" where
  "Value_Int h (Stored t a) =
     (if isIntKind (Kind t) then (case h a of CInt i \<Rightarrow> Some i | _ \<Rightarrow> None) else None)"
| "Value_Int h v = None"

fun Value_Uint :: "memory \<Rightarrow> Value \<Rightarrow> nat option" where
  "Value_Uint h (Stored t a) =
     (if isUintKind (Kind t) then (case h a of CUint n \<Rightarrow> Some n | _ \<Rightarrow> None) else None)"
| "Value_Uint h v = None"

section \<open>The schema and its builder\<close>

type_synonym ordinal = nat

type_synonym fieldFlags = "8 word"

definition intField :: fieldFlags where "intField = push_bit 0 1"

definition uintField :: fieldFlags where "uintField = push_bit 1 1"

definition stringField :: fieldFlags where "stringField = push_bit 2 1"

definition structField :: fieldFlags where "structField = push_bit 3 1"

definition pointerField :: fieldFlags where "pointerField = push_bit 4 1"

definition isPtr :: "fieldFlags \<Rightarrow> bool" where
  "isPtr f = (f AND pointerField \<noteq> 0)"

definition isScalar :: "fieldFlags \<Rightarrow> bool" where
  "isScalar f = (f AND (intField OR stringField OR uintField) \<noteq> 0)"

definition isStruct :: "fieldFlags \<Rightarrow> bool" where
  "isStruct f = (f AND structField \<noteq> 0)"

definition isInt :: "fieldFlags \<Rightarrow> bool" where
  "isInt f = (f AND intField \<noteq> 0)"

definition isUint :: "fieldFlags \<Rightarrow> bool" where
  "isUint f = (f AND uintField \<noteq> 0)"

definition isIntLike :: "fieldFlags \<Rightarrow> bool" where
  "isIntLike f = (f AND (intField OR uintField) \<noteq> 0)"

definition isString :: "fieldFlags \<Rightarrow> bool" where
  "isString f = (f AND stringField \<noteq> 0)"

text \<open>
  The three accessors of a field take the memory and the address of the entity. The field
  \<^verbatim>\<open>typ\<close> of \<^verbatim>\<open>fieldInfo\<close> is \<open>field_typ\<close> here and that of \<^verbatim>\<open>entityTypeSchema\<close> is
  \<open>typ'\<close>; \<^verbatim>\<open>value\<close> is \<open>value'\<close> and \<^verbatim>\<open>fields\<close> is \<open>fields'\<close>.
\<close>

record fieldInfo =
  path :: string
  field_typ :: rtype
  attr :: ordinal
  comparableValue :: "memory \<Rightarrow> uintptr \<Rightarrow> iface option"
  value' :: "memory \<Rightarrow> uintptr \<Rightarrow> iface option"
  inline :: "memory \<Rightarrow> uintptr \<Rightarrow> (uintptr \<times> bool) option"
  fieldFlags :: fieldFlags

record entityTypeSchema =
  typ' :: rtype
  fields' :: "fieldInfo list"
  attrFields :: "ordinal \<rightharpoonup> fieldInfo list"
  typID :: nat

text \<open>
  \<^verbatim>\<open>entityTypes\<close> and \<^verbatim>\<open>entityTypeSchemas\<close> hold pointers to the same
  \<^verbatim>\<open>entityTypeSchema\<close> objects, and \<^verbatim>\<open>Swap\<close> writes \<^verbatim>\<open>typID\<close> through them: \<open>objects\<close>
  is the store of these objects, a pointer is an index into it. The map
  \<^verbatim>\<open>entityTypeSchemas\<close> is an association list with one entry for each key, so that its
  \<^verbatim>\<open>len\<close> is the length of the list. The fields \<^verbatim>\<open>stringAttrs\<close>, \<^verbatim>\<open>rules\<close> and
  \<^verbatim>\<open>rulesByName\<close> are not written by the functions of schema.go and are left out.
\<close>

record Schema =
  name :: string
  attrs :: "Attr list"
  attrTypes :: "rtype list"
  attrToOrdinal :: "Attr \<rightharpoonup> ordinal"
  entityTypes :: "nat list"
  entityTypeSchemas :: "(rtype \<times> nat) list"
  typeOrdinal :: ordinal
  selfOrdinal :: ordinal
  objects :: "entityTypeSchema list"

text \<open>\<^verbatim>\<open>schemaMappings\<close> (declared in another file of package rel): the attribute
  declarations \<^verbatim>\<open>{a, typ}\<close> and the entity mappings \<^verbatim>\<open>{typ, attrMappings}\<close>, an attribute
  mapping being \<^verbatim>\<open>{a, selectors}\<close>, in the order the options registered them.\<close>

type_synonym attrMapping = "Attr \<times> string list"

record schemaMappings =
  attrTypes' :: "(Attr \<times> rtype) list"
  entityMappings :: "(rtype \<times> attrMapping list) list"

subsection \<open>checkType and maybeAddAttribute\<close>

definition checkType :: "env \<Rightarrow> rtype \<Rightarrow> rtype \<Rightarrow> panic_value + error option" where
  "checkType E typ exp =
     (if Kind exp = reflect_Interface then
        (case Implements E typ exp of
           Inl p \<Rightarrow> Inl p
         | Inr b \<Rightarrow> if \<not> b then Inr (Some (does_not_implement typ exp)) else Inr None)
      else if typ \<noteq> exp then Inr (Some (is_not typ exp))
      else Inr None)"

text \<open>The conversion \<^verbatim>\<open>ordinal(len(sb.attrs))\<close> is exact: the length is below
  \<^verbatim>\<open>maxUserAttribute\<close>, a constant of type \<^verbatim>\<open>ordinal\<close>, wherever the ordinal is used.\<close>

definition maybeAddAttribute ::
  "env \<Rightarrow> Schema \<Rightarrow> Attr \<Rightarrow> rtype \<Rightarrow> panic_value + (ordinal \<times> Schema)" where
  "maybeAddAttribute E sb a typ =
     (case attrToOrdinal sb a of
        None \<Rightarrow>
          (let ord = length (attrs sb) in
           if ord \<ge> maxUserAttribute E then Inl (PError too_many_attributes)
           else Inr (ord, sb\<lparr>attrs := attrs sb @ [a],
                             attrTypes := attrTypes sb @ [typ],
                             attrToOrdinal := (attrToOrdinal sb)(a \<mapsto> ord)\<rparr>))
      | Some ord \<Rightarrow>
          if ord < length (attrTypes sb) then
            (case checkType E typ (attrTypes sb ! ord) of
               Inl p \<Rightarrow> Inl p
             | Inr (Some err) \<Rightarrow> Inl (PError (type_mismatch_for err a))
             | Inr None \<Rightarrow> Inr (ord, sb))
          else Inl (PError (runtime_error ''index out of range'')))"

definition getOrdinal :: "Schema \<Rightarrow> Attr \<Rightarrow> ordinal \<times> error option" where
  "getOrdinal sc attribute =
     (case attrToOrdinal sc attribute of
        None \<Rightarrow> (0, Some (unknown_attribute attribute (name sc)))
      | Some ord \<Rightarrow> (ord, None))"

definition mustGetOrdinal :: "Schema \<Rightarrow> Attr \<Rightarrow> panic_value + ordinal" where
  "mustGetOrdinal sc attribute =
     (case getOrdinal sc attribute of
        (ord, Some err) \<Rightarrow> Inl (PError err)
      | (ord, None) \<Rightarrow> Inr ord)"

subsection \<open>Selectors\<close>

text \<open>\<^verbatim>\<open>strings.Split(s, sep)\<close> for a separator of one character.\<close>

fun Split :: "string \<Rightarrow> char \<Rightarrow> string list" where
  "Split [] sep = [[]]"
| "Split (c # cs) sep =
     (if c = sep then [] # Split cs sep
      else (case Split cs sep of w # ws \<Rightarrow> (c # w) # ws | [] \<Rightarrow> [[c]]))"

fun selector_names ::
  "env \<Rightarrow> rtype \<Rightarrow> string \<Rightarrow> string list \<Rightarrow> uintptr \<Rightarrow> rtype \<Rightarrow> panic_value + (uintptr \<times> rtype)" where
  "selector_names E structPointer selector [] offset cur = Inr (offset, cur)"
| "selector_names E structPointer selector (n # names) offset cur =
     (case FieldByName E cur n of
        Inl p \<Rightarrow> Inl p
      | Inr None \<Rightarrow> Inl (PError (is_not_a_field structPointer selector))
      | Inr (Some (sf_Offset, sf_Type)) \<Rightarrow>
          selector_names E structPointer selector names (offset + sf_Offset) sf_Type)"

definition getOffsetAndTypeFromSelector ::
  "env \<Rightarrow> rtype \<Rightarrow> string \<Rightarrow> panic_value + (uintptr \<times> rtype)" where
  "getOffsetAndTypeFromSelector E structPointer selector =
     (let names = Split selector (CHR ''.'') in
      case Elem structPointer of
        Inl p \<Rightarrow> Inl p
      | Inr cur \<Rightarrow> selector_names E structPointer selector names 0 cur)"

subsection \<open>Field flags\<close>

definition makeFieldFlags :: "rtype \<Rightarrow> panic_value + (fieldFlags \<times> bool)" where
  "makeFieldFlags t =
     (case (if Kind t = reflect_Ptr
            then (case Elem t of Inl p \<Rightarrow> Inl p | Inr e \<Rightarrow> Inr (0 OR pointerField, e))
            else Inr (0, t)) of
        Inl p \<Rightarrow> Inl p
      | Inr (f, t) \<Rightarrow>
          (let kind = Kind t in
           if kind = reflect_Struct \<and> isPtr f then Inr (f OR structField, True)
           else if kind = reflect_String then Inr (f OR stringField, True)
           else if isIntKind kind then Inr (f OR intField, True)
           else if isUintKind kind then Inr (f OR uintField, True)
           else Inr (0, False)))"

subsection \<open>Accessors\<close>

fun basic_String :: "basic \<Rightarrow> string" where
  "basic_String B_Int = ''int''"
| "basic_String B_Int8 = ''int8''"
| "basic_String B_Int16 = ''int16''"
| "basic_String B_Int32 = ''int32''"
| "basic_String B_Int64 = ''int64''"
| "basic_String B_Uint = ''uint''"
| "basic_String B_Uint8 = ''uint8''"
| "basic_String B_Uint16 = ''uint16''"
| "basic_String B_Uint32 = ''uint32''"
| "basic_String B_Uint64 = ''uint64''"
| "basic_String B_String = ''string''"
| "basic_String k = ''other''"

fun getComparableType :: "rtype \<Rightarrow> rtype" where
  \<comment> \<open>Modelled from the spec: the canonical comparable form of a scalar type, which is
      the predeclared type of its kind (the function is declared in another file of
      package rel).\<close>
  "getComparableType (Basic n k) =
     (if k = B_String \<or> isIntKind (basic_kind k) \<or> isUintKind (basic_kind k)
      then Basic (basic_String k) k else Basic n k)"
| "getComparableType t = t"

definition makeValueGetter :: "rtype \<Rightarrow> uintptr \<Rightarrow> uintptr \<Rightarrow> Value" where
  "makeValueGetter t offset u = NewAt t (u + offset)"

definition getPtrValue :: "(uintptr \<Rightarrow> Value) \<Rightarrow> memory \<Rightarrow> uintptr \<Rightarrow> iface option" where
  "getPtrValue vg h u =
     (let got = vg u in
      Option.bind (Value_Elem h got) (\<lambda>ge.
      Option.bind (IsNil h ge) (\<lambda>isnil.
        if isnil then Some nil else Interface h ge)))"

text \<open>The three blocks of \<^verbatim>\<open>addTypeAttrMapping\<close> that build \<^verbatim>\<open>f.value\<close>, \<^verbatim>\<open>f.inline\<close> and
  \<^verbatim>\<open>f.comparableValue\<close> from the flags \<open>f\<close>, the selected type \<open>cur\<close>, the attribute's type
  \<open>typ\<close> and the offset. The conversion \<^verbatim>\<open>uintptr(x)\<close> of an integer keeps its low 64 bits.
  When no case of the \<^verbatim>\<open>switch\<close> matches, \<^verbatim>\<open>f.inline\<close> stays nil and a call panics.\<close>

definition value_block ::
  "fieldFlags \<Rightarrow> rtype \<Rightarrow> uintptr \<Rightarrow> memory \<Rightarrow> uintptr \<Rightarrow> iface option" where
  "value_block f cur offset =
     (let vg = makeValueGetter cur offset in
      if isPtr f \<and> isStruct f then getPtrValue vg
      else if isPtr f \<and> isScalar f then
        (\<lambda>h u. let got = vg u in
           Option.bind (Value_Elem h got) (\<lambda>ge.
           Option.bind (IsNil h ge) (\<lambda>isnil.
             if isnil then Some nil
             else Option.bind (Value_Elem h ge) (Interface h))))
      else (\<lambda>h u. Option.bind (Value_Elem h (vg u)) (Interface h)))"

definition inline_block ::
  "fieldFlags \<Rightarrow> rtype \<Rightarrow> uintptr \<Rightarrow> memory \<Rightarrow> uintptr \<Rightarrow> (uintptr \<times> bool) option" where
  "inline_block f cur offset =
     (let vg = makeValueGetter cur offset in
      if isPtr f \<and> isInt f then
        (\<lambda>h u. let got = vg u in
           Option.bind (Value_Elem h got) (\<lambda>ge.
           Option.bind (IsNil h ge) (\<lambda>isnil.
             if isnil then Some (0, False)
             else Option.bind (Value_Elem h ge) (\<lambda>v.
                  Option.bind (Value_Int h v) (\<lambda>i. Some (word_of_int i, True))))))
      else if isPtr f \<and> isUint f then
        (\<lambda>h u. let got = vg u in
           Option.bind (Value_Elem h got) (\<lambda>ge.
           Option.bind (IsNil h ge) (\<lambda>isnil.
             if isnil then Some (0, False)
             else Option.bind (Value_Elem h ge) (\<lambda>v.
                  Option.bind (Value_Uint h v) (\<lambda>n. Some (word_of_nat n, True))))))
      else if isInt f then
        (\<lambda>h u. Option.bind (Value_Elem h (vg u)) (\<lambda>v.
                Option.bind (Value_Int h v) (\<lambda>i. Some (word_of_int i, True))))
      else if isUint f then
        (\<lambda>h u. Option.bind (Value_Elem h (vg u)) (\<lambda>v.
                Option.bind (Value_Uint h v) (\<lambda>n. Some (word_of_nat n, True))))
      else if isString f \<or> isStruct f then (\<lambda>h u. Some (0, False))
      else (\<lambda>h u. None))"

definition comparableValue_block ::
  "fieldFlags \<Rightarrow> rtype \<Rightarrow> rtype \<Rightarrow> uintptr \<Rightarrow> memory \<Rightarrow> uintptr \<Rightarrow> iface option" where
  "comparableValue_block f cur typ offset =
     (if isStruct f then getPtrValue (makeValueGetter cur offset)
      else
        (let compType = getComparableType typ;
             compType = (if isPtr f \<and> isScalar f then PtrTo compType else compType);
             vg = makeValueGetter compType offset
         in if isPtr f \<and> isScalar f then getPtrValue vg
            else (\<lambda>h u. Interface h (vg u))))"

definition addTypeAttrMapping ::
  "env \<Rightarrow> Schema \<Rightarrow> Attr \<Rightarrow> rtype \<Rightarrow> string \<Rightarrow> panic_value + (fieldInfo \<times> Schema)" where
  "addTypeAttrMapping E sb a t sel =
     (case getOffsetAndTypeFromSelector E t sel of
        Inl p \<Rightarrow> Inl p
      | Inr (offset, cur) \<Rightarrow>
     (case makeFieldFlags cur of
        Inl p \<Rightarrow> Inl p
      | Inr (flags, ok) \<Rightarrow>
          if \<not> ok then Inl (PError (has_unsupported_type sel t cur))
          else
     (case (if isPtr flags \<and> isScalar flags then Elem cur else Inr cur) of
        Inl p \<Rightarrow> Inl p
      | Inr typ \<Rightarrow>
     (case maybeAddAttribute E sb a typ of
        Inl p \<Rightarrow> Inl p
      | Inr (ord, sb') \<Rightarrow>
          Inr (\<lparr>path = sel, field_typ = typ, attr = ord,
                comparableValue = comparableValue_block flags cur typ offset,
                value' = value_block flags cur offset,
                inline = inline_block flags cur offset,
                fieldFlags = flags\<rparr>, sb')))))"

subsection \<open>maybeAddTypeMapping\<close>

definition isStructPointer :: "rtype \<Rightarrow> panic_value + bool" where
  "isStructPointer tt =
     (if Kind tt = reflect_Ptr
      then (case Elem tt of Inl p \<Rightarrow> Inl p | Inr e \<Rightarrow> Inr (Kind e = reflect_Struct))
      else Inr False)"

fun add_selectors ::
  "env \<Rightarrow> Attr \<Rightarrow> rtype \<Rightarrow> string list \<Rightarrow> fieldInfo list \<times> Schema
     \<Rightarrow> panic_value + (fieldInfo list \<times> Schema)" where
  "add_selectors E a t [] acc = Inr acc"
| "add_selectors E a t (sel # sels) (fieldInfos, sb) =
     (case addTypeAttrMapping E sb a t sel of
        Inl p \<Rightarrow> Inl p
      | Inr (fi, sb') \<Rightarrow> add_selectors E a t sels (fieldInfos @ [fi], sb'))"

fun add_attrMappings ::
  "env \<Rightarrow> rtype \<Rightarrow> attrMapping list \<Rightarrow> fieldInfo list \<times> Schema
     \<Rightarrow> panic_value + (fieldInfo list \<times> Schema)" where
  "add_attrMappings E t [] acc = Inr acc"
| "add_attrMappings E t (am # ams) acc =
     (case add_selectors E (fst am) t (snd am) acc of
        Inl p \<Rightarrow> Inl p
      | Inr acc' \<Rightarrow> add_attrMappings E t ams acc')"

text \<open>The loop that cuts the sorted \<^verbatim>\<open>fieldInfos\<close> into runs of one attribute.\<close>

function group_runs ::
  "fieldInfo list \<Rightarrow> (ordinal \<rightharpoonup> fieldInfo list) \<Rightarrow> (ordinal \<rightharpoonup> fieldInfo list)" where
  "group_runs [] attributeFields = attributeFields"
| "group_runs (x # xs) attributeFields =
     (let cur = attr x in
      group_runs (dropWhile (\<lambda>y. attr y = cur) xs)
        (attributeFields(cur \<mapsto> x # takeWhile (\<lambda>y. attr y = cur) xs)))"
  by pat_completeness auto

termination
  by (relation "measure (\<lambda>(xs, m). length xs)")
     (auto simp: length_dropWhile_le less_Suc_eq_le)

text \<open>\<^verbatim>\<open>sort.Slice\<close> by \<^verbatim>\<open>attr\<close> is modelled by the insertion sort \<open>sort_key\<close>; Go promises
  no order among fields of one attribute.\<close>

definition maybeAddTypeMapping ::
  "env \<Rightarrow> Schema \<Rightarrow> rtype \<Rightarrow> attrMapping list \<Rightarrow> panic_value + Schema" where
  "maybeAddTypeMapping E sb t attributeMappings =
     (case isStructPointer t of
        Inl p \<Rightarrow> Inl p
      | Inr False \<Rightarrow> Inl (PError (is_not_a_pointer_to_a_struct t))
      | Inr True \<Rightarrow>
     (case add_attrMappings E t attributeMappings ([], sb) of
        Inl p \<Rightarrow> Inl p
      | Inr (fieldInfos0, sb1) \<Rightarrow>
          (let fieldInfos = sort_key attr fieldInfos0;
               attributeFields = group_runs fieldInfos Map.empty;
               ts = \<lparr>typ' = t, fields' = fieldInfos, attrFields = attributeFields,
                     typID = length (entityTypes sb1)\<rparr>;
               p = length (objects sb1)
           in Inr (sb1\<lparr>entityTypeSchemas := AList.update t p (entityTypeSchemas sb1),
                       entityTypes := entityTypes sb1 @ [p],
                       objects := objects sb1 @ [ts]\<rparr>))))"

subsection \<open>entityTypeSchemaSort and sort.Sort\<close>

definition Len :: "Schema \<Rightarrow> nat" where
  "Len e = length (entityTypeSchemas e)"

definition deref :: "Schema \<Rightarrow> nat \<Rightarrow> panic_value + entityTypeSchema" where
  \<comment> \<open>\<^verbatim>\<open>*e.entityTypes[i]\<close>\<close>
  "deref e i =
     (if i < length (entityTypes e) then
        (if entityTypes e ! i < length (objects e) then Inr (objects e ! (entityTypes e ! i))
         else Inl (PError (runtime_error ''invalid memory address or nil pointer dereference'')))
      else Inl (PError (runtime_error ''index out of range'')))"

definition Less :: "env \<Rightarrow> Schema \<Rightarrow> nat \<Rightarrow> nat \<Rightarrow> panic_value + bool" where
  "Less E e i j =
     (case deref e i of
        Inl p \<Rightarrow> Inl p
      | Inr ei \<Rightarrow>
     (case deref e j of
        Inl p \<Rightarrow> Inl p
      | Inr ej \<Rightarrow> Inr (fst (compareTypes E (typ' ei) (typ' ej)))))"

definition set_typID :: "Schema \<Rightarrow> nat \<Rightarrow> nat \<Rightarrow> panic_value + Schema" where
  \<comment> \<open>\<^verbatim>\<open>e.entityTypes[i].typID = uintptr(v)\<close>\<close>
  "set_typID e i v =
     (case deref e i of
        Inl p \<Rightarrow> Inl p
      | Inr ei \<Rightarrow> Inr (e\<lparr>objects := (objects e)[entityTypes e ! i := ei\<lparr>typID := v\<rparr>]\<rparr>))"

definition Swap :: "Schema \<Rightarrow> nat \<Rightarrow> nat \<Rightarrow> panic_value + Schema" where
  "Swap e i j =
     (case set_typID e i j of
        Inl p \<Rightarrow> Inl p
      | Inr e1 \<Rightarrow>
     (case set_typID e1 j i of
        Inl p \<Rightarrow> Inl p
      | Inr e2 \<Rightarrow>
          Inr (e2\<lparr>entityTypes :=
                   (entityTypes e2)[i := entityTypes e2 ! j, j := entityTypes e2 ! i]\<rparr>)))"

text \<open>
  \<^verbatim>\<open>sort.Sort\<close> is Go's library: it reads the data through \<^verbatim>\<open>Len\<close>, \<^verbatim>\<open>Less\<close> and \<^verbatim>\<open>Swap\<close>
  only. It is modelled by the library's \<^verbatim>\<open>insertionSort\<close>, the algorithm it runs on short
  inputs:
  \<^verbatim>\<open>for i := a + 1; i < b; i++ { for j := i; j > a && data.Less(j, j-1); j-- { data.Swap(j, j-1) } }\<close>
\<close>

fun insertionSort_j :: "env \<Rightarrow> Schema \<Rightarrow> nat \<Rightarrow> panic_value + Schema" where
  "insertionSort_j E data 0 = Inr data"
| "insertionSort_j E data (Suc j) =
     (case Less E data (Suc j) j of
        Inl p \<Rightarrow> Inl p
      | Inr lt \<Rightarrow>
          if lt then
            (case Swap data (Suc j) j of
               Inl p \<Rightarrow> Inl p
             | Inr data' \<Rightarrow> insertionSort_j E data' j)
          else Inr data)"

fun insertionSort_i :: "env \<Rightarrow> nat list \<Rightarrow> Schema \<Rightarrow> panic_value + Schema" where
  "insertionSort_i E [] data = Inr data"
| "insertionSort_i E (i # rest) data =
     (case insertionSort_j E data i of
        Inl p \<Rightarrow> Inl p
      | Inr data' \<Rightarrow> insertionSort_i E rest data')"

definition sort_Sort :: "env \<Rightarrow> Schema \<Rightarrow> panic_value + Schema" where
  "sort_Sort E data = (let n = Len data in insertionSort_i E [1..<n] data)"

subsection \<open>buildSchema, NewSchema and MustSchema\<close>

fun add_attrTypes :: "env \<Rightarrow> (Attr \<times> rtype) list \<Rightarrow> Schema \<Rightarrow> panic_value + Schema" where
  "add_attrTypes E [] sb = Inr sb"
| "add_attrTypes E (t # ts) sb =
     (case maybeAddAttribute E sb (fst t) (snd t) of
        Inl p \<Rightarrow> Inl p
      | Inr (ord, sb') \<Rightarrow> add_attrTypes E ts sb')"

fun add_entityMappings ::
  "env \<Rightarrow> (rtype \<times> attrMapping list) list \<Rightarrow> Schema \<Rightarrow> panic_value + Schema" where
  "add_entityMappings E [] sb = Inr sb"
| "add_entityMappings E (tm # tms) sb =
     (case maybeAddTypeMapping E sb (fst tm) (snd tm) of
        Inl p \<Rightarrow> Inl p
      | Inr sb' \<Rightarrow> add_entityMappings E tms sb')"

definition new_Schema :: "string \<Rightarrow> Schema" where
  "new_Schema n =
     \<lparr>name = n, attrs = [], attrTypes = [], attrToOrdinal = Map.empty, entityTypes = [],
      entityTypeSchemas = [], typeOrdinal = 0, selfOrdinal = 0, objects = []\<rparr>"

definition add_reserved :: "env \<Rightarrow> Schema \<Rightarrow> panic_value + Schema" where
  \<comment> \<open>the lines of \<^verbatim>\<open>buildSchema\<close> that register \<^verbatim>\<open>Self\<close> and \<^verbatim>\<open>Type\<close>\<close>
  "add_reserved E sb =
     (case maybeAddAttribute E sb Self emptyInterfaceType of
        Inl p \<Rightarrow> Inl p
      | Inr (ord1, sb1) \<Rightarrow>
     (case mustGetOrdinal sb1 Self of
        Inl p \<Rightarrow> Inl p
      | Inr so \<Rightarrow>
     (case maybeAddAttribute E (sb1\<lparr>selfOrdinal := so\<rparr>) Type reflectTypeType of
        Inl p \<Rightarrow> Inl p
      | Inr (ord2, sb2) \<Rightarrow>
     (case mustGetOrdinal sb2 Type of
        Inl p \<Rightarrow> Inl p
      | Inr to \<Rightarrow> Inr (sb2\<lparr>typeOrdinal := to\<rparr>)))))"

text \<open>\<^verbatim>\<open>buildSchema\<close> takes the mappings \<open>m\<close> the options have been applied to (the options
  and their \<^verbatim>\<open>apply\<close> are declared in another file of package rel).\<close>

definition buildSchema :: "env \<Rightarrow> string \<Rightarrow> schemaMappings \<Rightarrow> panic_value + Schema" where
  "buildSchema E n m =
     (case add_attrTypes E (attrTypes' m) (new_Schema n) of
        Inl p \<Rightarrow> Inl p
      | Inr sb1 \<Rightarrow>
     (case add_entityMappings E (entityMappings m) sb1 of
        Inl p \<Rightarrow> Inl p
      | Inr sb2 \<Rightarrow>
     (case add_reserved E sb2 of
        Inl p \<Rightarrow> Inl p
      | Inr sb3 \<Rightarrow> sort_Sort E sb3)))"

text \<open>\<^verbatim>\<open>NewSchema\<close> returns \<^verbatim>\<open>(*Schema, error)\<close>; each is \<open>None\<close> when nil. The deferred
  function recovers the panic and sets \<^verbatim>\<open>err\<close>; the first result then is still nil.\<close>

definition NewSchema :: "env \<Rightarrow> string \<Rightarrow> schemaMappings \<Rightarrow> Schema option \<times> error option" where
  "NewSchema E n m =
     (case buildSchema E n m of
        Inr sc \<Rightarrow> (Some sc, None)
      | Inl (PError r) \<Rightarrow> (None, Some (failed_to_construct_schema r))
      | Inl (PString r) \<Rightarrow> (None, Some (AssertionFailed_failed_to_construct_schema r)))"

definition MustSchema :: "env \<Rightarrow> string \<Rightarrow> schemaMappings \<Rightarrow> panic_value + Schema" where
  "MustSchema E n m = buildSchema E n m"

section \<open>Notions of the specification\<close>

text \<open>
  The attributes in the order of their first registration: \<open>register as a\<close> is the list
  after one more registration. \<open>registrations m\<close> is the sequence of the calls of
  \<^verbatim>\<open>maybeAddAttribute\<close> that \<^verbatim>\<open>buildSchema\<close> makes on \<open>m\<close>: the declarations, one call for
  each selector of each entity mapping, then \<^verbatim>\<open>Self\<close> and \<^verbatim>\<open>Type\<close>.
\<close>

definition register :: "Attr list \<Rightarrow> Attr \<Rightarrow> Attr list" where
  "register as a = (if a \<in> set as then as else as @ [a])"

definition attrs_ok :: "Schema \<Rightarrow> bool" where
  "attrs_ok sb \<longleftrightarrow>
     length (attrTypes sb) = length (attrs sb) \<and> distinct (attrs sb) \<and>
     dom (attrToOrdinal sb) = set (attrs sb) \<and>
     (\<forall>i<length (attrs sb). attrToOrdinal sb (attrs sb ! i) = Some i)"

definition registrations_of :: "attrMapping list \<Rightarrow> Attr list" where
  "registrations_of ams = concat (map (\<lambda>am. replicate (length (snd am)) (fst am)) ams)"

definition caller_registrations :: "schemaMappings \<Rightarrow> Attr list" where
  "caller_registrations m =
     map fst (attrTypes' m) @ concat (map (\<lambda>tm. registrations_of (snd tm)) (entityMappings m))"

definition registrations :: "schemaMappings \<Rightarrow> Attr list" where
  "registrations m = caller_registrations m @ [Self, Type]"

definition same_entities :: "Schema \<Rightarrow> Schema \<Rightarrow> bool" where
  "same_entities sb sb' \<longleftrightarrow>
     entityTypes sb' = entityTypes sb \<and> entityTypeSchemas sb' = entityTypeSchemas sb \<and>
     objects sb' = objects sb"

definition attr_step :: "env \<Rightarrow> Schema \<Rightarrow> Attr list \<Rightarrow> Schema \<Rightarrow> bool" where
  "attr_step E sb as sb' \<longleftrightarrow>
     name sb' = name sb \<and>
     (length (attrs sb) \<le> maxUserAttribute E \<longrightarrow> length (attrs sb') \<le> maxUserAttribute E) \<and>
     (attrs_ok sb \<longrightarrow> attrs_ok sb' \<and> attrs sb' = foldl register (attrs sb) as)"

definition ents_ok :: "Schema \<Rightarrow> bool" where
  "ents_ok sb \<longleftrightarrow>
     distinct (entityTypes sb) \<and> set (entityTypes sb) = {0..<length (objects sb)} \<and>
     (\<forall>k<length (entityTypes sb). typID (objects sb ! (entityTypes sb ! k)) = k) \<and>
     (\<forall>(t, p) \<in> set (entityTypeSchemas sb). p < length (objects sb) \<and> typ' (objects sb ! p) = t) \<and>
     length (entityTypeSchemas sb) \<le> length (entityTypes sb)"

definition same_attrs :: "Schema \<Rightarrow> Schema \<Rightarrow> bool" where
  "same_attrs e e' \<longleftrightarrow>
     name e' = name e \<and> attrs e' = attrs e \<and> attrTypes e' = attrTypes e \<and>
     attrToOrdinal e' = attrToOrdinal e \<and> selfOrdinal e' = selfOrdinal e \<and>
     typeOrdinal e' = typeOrdinal e \<and> entityTypeSchemas e' = entityTypeSchemas e \<and>
     map typ' (objects e') = map typ' (objects e)"

definition valid_schema :: "env \<Rightarrow> Schema \<Rightarrow> bool" where
  "valid_schema E sc \<longleftrightarrow>
     attrs_ok sc \<and> length (attrs sc) \<le> maxUserAttribute E \<and> ents_ok sc \<and>
     attrToOrdinal sc Self = Some (selfOrdinal sc) \<and>
     attrToOrdinal sc Type = Some (typeOrdinal sc)"

text \<open>
  An environment and types for the examples: no type has methods, no struct embeds
  another, \<^verbatim>\<open>compareTypes\<close> orders the types by their names, and a schema has at most five
  attributes.
\<close>

fun string_less :: "string \<Rightarrow> string \<Rightarrow> bool" where
  "string_less [] [] = False"
| "string_less [] (y # ys) = True"
| "string_less (x # xs) [] = False"
| "string_less (x # xs) (y # ys) =
     ((of_char x :: nat) < of_char y \<or> (x = y \<and> string_less xs ys))"

definition example_env :: env where
  "example_env =
     \<lparr>methodsOf = (\<lambda>t. []), promotedField = (\<lambda>t n. None),
      compareTypes = (\<lambda>a b. (string_less (type_String a) (type_String b), a = b)),
      maxUserAttribute = 5\<rparr>"

definition int64_type :: rtype where
  "int64_type = Basic ''int64'' B_Int64"

definition string_type :: rtype where
  "string_type = Basic ''string'' B_String"

definition example_declarations :: schemaMappings where
  "example_declarations =
     \<lparr>attrTypes' = [(User ''a'', int64_type), (User ''b'', string_type), (User ''a'', int64_type)],
      entityMappings = []\<rparr>"

definition example_type_first :: schemaMappings where
  "example_type_first =
     \<lparr>attrTypes' = [(Type, reflectTypeType), (User ''b'', int64_type)], entityMappings = []\<rparr>"

definition example_three :: schemaMappings where
  "example_three =
     \<lparr>attrTypes' = [(User ''a'', int64_type), (User ''b'', string_type), (User ''c'', int64_type)],
      entityMappings = []\<rparr>"

definition example_four :: schemaMappings where
  "example_four =
     \<lparr>attrTypes' = [(User ''a'', int64_type), (User ''b'', string_type), (User ''c'', int64_type),
                    (User ''d'', int64_type)],
      entityMappings = []\<rparr>"

definition example_table :: Schema where
  "example_table =
     \<lparr>name = ''s'', attrs = [User ''any'', User ''id''],
      attrTypes = [emptyInterfaceType, int64_type],
      attrToOrdinal = [User ''any'' \<mapsto> 0, User ''id'' \<mapsto> 1],
      entityTypes = [], entityTypeSchemas = [], typeOrdinal = 0, selfOrdinal = 0, objects = []\<rparr>"

definition example_inner :: rtype where
  "example_inner = StructOf ''Inner'' [(''B'', 4, int64_type), (''C'', 12, PtrTo string_type)]"


definition scalar_kind :: "kind \<Rightarrow> bool" where
  "scalar_kind k \<longleftrightarrow> k = reflect_String \<or> isIntKind k \<or> isUintKind k"

text \<open>Reading through a pointer held in an \<^verbatim>\<open>interface{}\<close>: \<^verbatim>\<open>*v\<close>.\<close>

definition pointee :: "memory \<Rightarrow> iface \<Rightarrow> iface option" where
  "pointee h v =
     (case v of
        I_ptr (PtrTo t) p \<Rightarrow> if p = 0 then None else Interface h (Stored t p)
      | _ \<Rightarrow> None)"

text \<open>
  A record type with a plain, an optional, a string, a reference and an optional unsigned
  field, and a memory with two records of it: at address 64 (\<^verbatim>\<open>ID\<close> 5, \<^verbatim>\<open>Opt\<close> pointing to 7,
  \<^verbatim>\<open>Ref\<close> pointing to address 512, \<^verbatim>\<open>Count\<close> pointing to 7) and at address 128 (\<^verbatim>\<open>ID\<close> 5,
  \<^verbatim>\<open>Opt\<close> nil, \<^verbatim>\<open>Ref\<close> pointing to address 640, \<^verbatim>\<open>Count\<close> nil).
\<close>

definition uint32_type :: rtype where
  "uint32_type = Basic ''uint32'' B_Uint32"

definition example_record :: rtype where
  "example_record =
     StructOf ''Rec'' [(''ID'', 0, int64_type), (''Opt'', 8, PtrTo int64_type),
                       (''Name'', 16, string_type), (''Ref'', 32, PtrTo example_inner),
                       (''Count'', 40, PtrTo uint32_type)]"

definition example_memory :: memory where
  "example_memory =
     (\<lambda>a. CNone)(64 := CInt 5, 72 := CPtr 256, 80 := CString ''n'', 96 := CPtr 512,
                  104 := CPtr 264,
                  128 := CInt 5, 136 := CPtr 0, 144 := CString ''n'', 160 := CPtr 640,
                  168 := CPtr 0,
                  256 := CInt 7, 264 := CUint 7)"

definition example_plain :: rtype where
  "example_plain = StructOf ''Plain'' [(''ID'', 0, int64_type)]"

definition example_optional :: rtype where
  "example_optional = StructOf ''Optional'' [(''Name'', 0, string_type), (''ID'', 16, PtrTo int64_type)]"

text \<open>The rank of a record type in a schema: \<^verbatim>\<open>sc.entityTypeSchemas[t].typID\<close>.\<close>

definition typeRank :: "Schema \<Rightarrow> rtype \<Rightarrow> nat option" where
  "typeRank sc t =
     (case map_of (entityTypeSchemas sc) t of
        None \<Rightarrow> None
      | Some p \<Rightarrow> if p < length (objects sc) then Some (typID (objects sc ! p)) else None)"

definition example_twice :: schemaMappings where
  "example_twice =
     \<lparr>attrTypes' = [],
      entityMappings = [(PtrTo example_plain, [(User ''id'', [''ID''])]),
                        (PtrTo example_plain, [(User ''key'', [''ID''])]),
                        (PtrTo example_optional, [(User ''id'', [''ID''])])]\<rparr>"

definition example_twice_reordered :: schemaMappings where
  "example_twice_reordered =
     \<lparr>attrTypes' = [],
      entityMappings = [(PtrTo example_optional, [(User ''id'', [''ID''])]),
                        (PtrTo example_plain, [(User ''id'', [''ID''])]),
                        (PtrTo example_plain, [(User ''key'', [''ID''])])]\<rparr>"

text \<open>
  The record types of \<^verbatim>\<open>entityTypes\<close> in their order, what \<^verbatim>\<open>Less\<close> compares, the list
  operations that \<^verbatim>\<open>Swap\<close> and the two loops of the insertion sort perform on them, and
  what it is for an order to be strict and total on a set of types.
\<close>

definition types_of :: "Schema \<Rightarrow> rtype list" where
  "types_of e = map (\<lambda>p. typ' (objects e ! p)) (entityTypes e)"

definition type_less :: "env \<Rightarrow> rtype \<Rightarrow> rtype \<Rightarrow> bool" where
  "type_less E a b = fst (compareTypes E a b)"

fun sift :: "('a \<Rightarrow> 'a \<Rightarrow> bool) \<Rightarrow> 'a list \<Rightarrow> nat \<Rightarrow> 'a list" where
  "sift lt xs 0 = xs"
| "sift lt xs (Suc j) =
     (if lt (xs ! Suc j) (xs ! j) then sift lt (xs[Suc j := xs ! j, j := xs ! Suc j]) j else xs)"

fun sift_all :: "('a \<Rightarrow> 'a \<Rightarrow> bool) \<Rightarrow> nat list \<Rightarrow> 'a list \<Rightarrow> 'a list" where
  "sift_all lt [] xs = xs"
| "sift_all lt (i # rest) xs = sift_all lt rest (sift lt xs i)"

definition strict_linear_on :: "'a set \<Rightarrow> ('a \<Rightarrow> 'a \<Rightarrow> bool) \<Rightarrow> bool" where
  "strict_linear_on S lt \<longleftrightarrow>
     (\<forall>a\<in>S. \<not> lt a a) \<and>
     (\<forall>a\<in>S. \<forall>b\<in>S. \<forall>c\<in>S. lt a b \<longrightarrow> lt b c \<longrightarrow> lt a c) \<and>
     (\<forall>a\<in>S. \<forall>b\<in>S. a \<noteq> b \<longrightarrow> lt a b \<or> lt b a)"

definition sorted_to :: "('a \<Rightarrow> 'a \<Rightarrow> bool) \<Rightarrow> 'a list \<Rightarrow> nat \<Rightarrow> bool" where
  "sorted_to lt xs k \<longleftrightarrow> (\<forall>a b. a < b \<and> b < k \<longrightarrow> lt (xs ! a) (xs ! b))"

definition reg_ok :: "Schema \<Rightarrow> bool" where
  "reg_ok sb \<longleftrightarrow>
     ents_ok sb \<and> entityTypes sb = [0..<length (objects sb)] \<and>
     distinct (map fst (entityTypeSchemas sb)) \<and>
     fst ` set (entityTypeSchemas sb) = typ' ` set (objects sb)"

definition example_once :: schemaMappings where
  "example_once =
     \<lparr>attrTypes' = [],
      entityMappings = [(PtrTo example_plain, [(User ''id'', [''ID''])]),
                        (PtrTo example_optional, [(User ''id'', [''ID''])])]\<rparr>"

definition example_once_reordered :: schemaMappings where
  "example_once_reordered =
     \<lparr>attrTypes' = [],
      entityMappings = [(PtrTo example_optional, [(User ''id'', [''ID''])]),
                        (PtrTo example_plain, [(User ''id'', [''ID''])])]\<rparr>"






text \<open>
  What the specification asks of a use of an attribute: the type \<open>typ\<close> of the use fits the
  type \<open>fixed\<close> that the first use has fixed when it is that type, or \<open>fixed\<close> is an interface
  that \<open>typ\<close> implements; \<open>mismatch typ fixed\<close> is the error for a use that does not fit.
  The fields a mapping may select are of a scalar kind, pointers to such a type, or
  pointers to a struct; the type of a field as an attribute's is the field's type, without
  the pointer when the field is an optional scalar.
\<close>

definition fits :: "env \<Rightarrow> rtype \<Rightarrow> rtype \<Rightarrow> bool" where
  "fits E typ fixed \<longleftrightarrow>
     typ = fixed \<or> (Kind fixed = reflect_Interface \<and> Implements E typ fixed = Inr True)"

definition mismatch :: "rtype \<Rightarrow> rtype \<Rightarrow> error" where
  "mismatch typ fixed =
     (if Kind fixed = reflect_Interface then does_not_implement typ fixed else is_not typ fixed)"

definition supported :: "rtype \<Rightarrow> bool" where
  "supported cur =
     (case cur of
        PtrTo T \<Rightarrow> scalar_kind (Kind T) \<or> Kind T = reflect_Struct
      | _ \<Rightarrow> scalar_kind (Kind cur))"

fun used_type :: "rtype \<Rightarrow> rtype" where
  "used_type (PtrTo T) = (if scalar_kind (Kind T) then T else PtrTo T)"
| "used_type t = t"

text \<open>
  The registrations of \<open>m\<close> with their types, in the order of \<open>registrations m\<close>: a
  declaration registers its type, a selector the type of its field (a selector that does not
  resolve registers nothing: its entry holds the record type, and no statement uses it).
\<close>

definition selectors_of :: "attrMapping list \<Rightarrow> (Attr \<times> string) list" where
  "selectors_of ams = concat (map (\<lambda>am. map (Pair (fst am)) (snd am)) ams)"

definition selector_type :: "env \<Rightarrow> rtype \<Rightarrow> string \<Rightarrow> rtype" where
  "selector_type E t sel =
     (case getOffsetAndTypeFromSelector E t sel of
        Inr (off, cur) \<Rightarrow> used_type cur
      | Inl p \<Rightarrow> t)"

definition uses_of :: "env \<Rightarrow> rtype \<Rightarrow> attrMapping list \<Rightarrow> (Attr \<times> rtype) list" where
  "uses_of E t ams = map (\<lambda>(a, sel). (a, selector_type E t sel)) (selectors_of ams)"

definition typed_registrations :: "env \<Rightarrow> schemaMappings \<Rightarrow> (Attr \<times> rtype) list" where
  "typed_registrations E m =
     attrTypes' m @ concat (map (\<lambda>tm. uses_of E (fst tm) (snd tm)) (entityMappings m)) @
     [(Self, emptyInterfaceType), (Type, reflectTypeType)]"

text \<open>
  The attribute table of \<open>sb\<close> is the one of the typed registrations \<open>regs\<close>: the attributes
  are those registered, the type of each is the type of its first registration, and every
  registration fits the type of its attribute.
\<close>

definition types_ok :: "env \<Rightarrow> (Attr \<times> rtype) list \<Rightarrow> Schema \<Rightarrow> bool" where
  "types_ok E regs sb \<longleftrightarrow>
     attrs_ok sb \<and> set (attrs sb) = fst ` set regs \<and>
     (\<forall>a ord. attrToOrdinal sb a = Some ord \<longrightarrow> map_of regs a = Some (attrTypes sb ! ord)) \<and>
     (\<forall>(a, typ) \<in> set regs. \<exists>fixed. map_of regs a = Some fixed \<and> fits E typ fixed)"

text \<open>The attribute table \<open>sb'\<close> extends \<open>sb\<close>: what \<open>sb\<close> resolves and stores stays.\<close>

definition table_le :: "Schema \<Rightarrow> Schema \<Rightarrow> bool" where
  "table_le sb sb' \<longleftrightarrow>
     (\<forall>a i. attrToOrdinal sb a = Some i \<longrightarrow> attrToOrdinal sb' a = Some i) \<and>
     length (attrTypes sb) \<le> length (attrTypes sb') \<and>
     (\<forall>i<length (attrTypes sb). attrTypes sb' ! i = attrTypes sb ! i)"

text \<open>
  The field descriptor \<open>f\<close> is the one of the selector \<open>sel\<close> of the record type \<open>t\<close>, mapped
  to the attribute \<open>a\<close>, in the schema \<open>sc\<close>: the selector resolves to a field of a supported
  type, the descriptor has the selector, the field's flags and its type as an attribute's,
  the ordinal of \<open>a\<close>, whose type the field's type fits, and the three accessors made for the
  field's type and offset.
\<close>

definition field_ok :: "env \<Rightarrow> Schema \<Rightarrow> rtype \<Rightarrow> Attr \<Rightarrow> string \<Rightarrow> fieldInfo \<Rightarrow> bool" where
  "field_ok E sc t a sel f \<longleftrightarrow>
     (case getOffsetAndTypeFromSelector E t sel of
        Inl p \<Rightarrow> False
      | Inr (off, cur) \<Rightarrow>
          supported cur \<and> path f = sel \<and> field_typ f = used_type cur \<and>
          makeFieldFlags cur = Inr (fieldFlags f, True) \<and>
          attrToOrdinal sc a = Some (attr f) \<and> attr f < length (attrTypes sc) \<and>
          fits E (field_typ f) (attrTypes sc ! attr f) \<and>
          value' f = value_block (fieldFlags f) cur off \<and>
          inline f = inline_block (fieldFlags f) cur off \<and>
          comparableValue f = comparableValue_block (fieldFlags f) cur (field_typ f) off)"

text \<open>
  The entity type schema \<open>ts\<close> is the one of the record type \<open>t\<close> with the attribute
  mappings \<open>ams\<close>: \<open>t\<close> is a pointer to a struct, the fields are the descriptors of the
  selectors, sorted by the ordinal of their attribute, and \<^verbatim>\<open>attrFields\<close> maps each ordinal
  that has fields to these fields.
\<close>

definition entity_ok :: "env \<Rightarrow> Schema \<Rightarrow> rtype \<Rightarrow> attrMapping list \<Rightarrow> entityTypeSchema \<Rightarrow> bool" where
  "entity_ok E sc t ams ts \<longleftrightarrow>
     typ' ts = t \<and> isStructPointer t = Inr True \<and>
     (\<exists>fs. list_all2 (\<lambda>(a, sel) f. field_ok E sc t a sel f) (selectors_of ams) fs \<and>
           fields' ts = sort_key attr fs) \<and>
     (\<forall>ord. attrFields ts ord =
        (if ord \<in> attr ` set (fields' ts)
         then Some (filter (\<lambda>f. attr f = ord) (fields' ts)) else None))"

text \<open>
  \<open>same_fields e e'\<close>: the entity type schemas of \<open>e'\<close> have the fields of those of \<open>e\<close>.
  \<open>last_registered ts ets\<close>: the map \<open>ets\<close> sends each record type of the list \<open>ts\<close> to the
  index of its last occurrence, and no other type to an index.
\<close>

definition same_fields :: "Schema \<Rightarrow> Schema \<Rightarrow> bool" where
  "same_fields e e' \<longleftrightarrow>
     map fields' (objects e') = map fields' (objects e) \<and>
     map attrFields (objects e') = map attrFields (objects e)"

definition last_registered :: "rtype list \<Rightarrow> (rtype \<times> nat) list \<Rightarrow> bool" where
  "last_registered ts ets \<longleftrightarrow>
     (\<forall>t p. map_of ets t = Some p \<longleftrightarrow>
        p < length ts \<and> ts ! p = t \<and> (\<forall>q. p < q \<and> q < length ts \<longrightarrow> ts ! q \<noteq> t))"

text \<open>
  What the specification asks of the schema \<open>sc\<close> built from the mappings \<open>m\<close>: the
  attribute table is dense and holds the attributes in the order of their first
  registration, each with the type of its first registration, which every registration
  fits; there is one entity type schema for each entity mapping, with the field
  descriptors of its selectors; the ranks are the positions in \<^verbatim>\<open>entityTypes\<close>, and the map
  \<^verbatim>\<open>entityTypeSchemas\<close> sends each record type to the schema of its last registration;
  \<^verbatim>\<open>Self\<close> and \<^verbatim>\<open>Type\<close> are resolved; and when every record type is registered once and
  \<^verbatim>\<open>compareTypes\<close> is a strict total order of them, the entity types are in this order, the
  rank of each being the number of the types before it.
\<close>

definition built_from :: "env \<Rightarrow> schemaMappings \<Rightarrow> Schema \<Rightarrow> bool" where
  "built_from E m sc \<longleftrightarrow>
     valid_schema E sc \<and>
     attrs sc = foldl register [] (registrations m) \<and>
     types_ok E (typed_registrations E m) sc \<and>
     list_all2 (\<lambda>tm ts. entity_ok E sc (fst tm) (snd tm) ts) (entityMappings m) (objects sc) \<and>
     last_registered (map fst (entityMappings m)) (entityTypeSchemas sc) \<and>
     (distinct (map fst (entityMappings m)) \<and>
      strict_linear_on (fst ` set (entityMappings m)) (type_less E) \<longrightarrow>
        sorted_to (type_less E) (types_of sc) (length (entityMappings m)) \<and>
        (\<forall>t \<in> fst ` set (entityMappings m).
           typeRank sc t = Some (card {t' \<in> fst ` set (entityMappings m). type_less E t' t})))"

text \<open>
  The ways a construction fails, each with the value of the panic. \<open>bad_use E regs us p\<close>:
  one of the typed registrations \<open>us\<close>, made after the registrations \<open>regs\<close>, does not fit
  the type that the first registration of its attribute has fixed. \<open>bad_selector E t sel p\<close>:
  the selector \<open>sel\<close> of the record type \<open>t\<close> does not resolve, or resolves to a field of a
  type that is not supported. \<open>construction_failure E m p\<close>: the mappings \<open>m\<close> register more
  attributes than the maximum, or hold a use that does not fit, a record type that is no
  pointer to a struct, or such a selector.
\<close>

definition bad_use :: "env \<Rightarrow> (Attr \<times> rtype) list \<Rightarrow> (Attr \<times> rtype) list \<Rightarrow> panic_value \<Rightarrow> bool" where
  "bad_use E regs us p \<longleftrightarrow>
     (\<exists>pre a typ post fixed.
        us = pre @ (a, typ) # post \<and> map_of (regs @ pre) a = Some fixed \<and>
        \<not> fits E typ fixed \<and> p = PError (type_mismatch_for (mismatch typ fixed) a))"

definition bad_selector :: "env \<Rightarrow> rtype \<Rightarrow> string \<Rightarrow> panic_value \<Rightarrow> bool" where
  "bad_selector E t sel p \<longleftrightarrow>
     (getOffsetAndTypeFromSelector E t sel = Inl p \<and>
      (p = PError (is_not_a_field t sel) \<or>
       (\<exists>u. p = PString (''reflect: FieldByName of non-struct type '' @ type_String u)))) \<or>
     (\<exists>off cur. getOffsetAndTypeFromSelector E t sel = Inr (off, cur) \<and> \<not> supported cur \<and>
        p = PError (has_unsupported_type sel t cur))"

definition bad_mapping :: "env \<Rightarrow> rtype \<Rightarrow> attrMapping list \<Rightarrow> panic_value \<Rightarrow> bool" where
  "bad_mapping E t ams p \<longleftrightarrow>
     (isStructPointer t = Inr False \<and> p = PError (is_not_a_pointer_to_a_struct t)) \<or>
     (isStructPointer t = Inr True \<and> (\<exists>(a, sel) \<in> set (selectors_of ams). bad_selector E t sel p))"

definition construction_failure :: "env \<Rightarrow> schemaMappings \<Rightarrow> panic_value \<Rightarrow> bool" where
  "construction_failure E m p \<longleftrightarrow>
     (p = PError too_many_attributes \<and> maxUserAttribute E < card (set (registrations m))) \<or>
     bad_use E [] (typed_registrations E m) p \<or>
     (\<exists>(t, ams) \<in> set (entityMappings m). bad_mapping E t ams p)"

text \<open>
  An environment in which a pointer type has a method that its element type has not (a
  method with a pointer receiver), an interface that asks for this method, and a record
  type with an optional field of the element type; and mappings that map one attribute to
  a field of type \<^verbatim>\<open>int64\<close> and to a field of type \<^verbatim>\<open>string\<close>.
\<close>

definition id_type :: rtype where
  "id_type = Basic ''ID'' B_Int64"

definition stringer_type :: rtype where
  "stringer_type = InterfaceOf ''Stringer'' [''String'']"

definition example_keyed :: rtype where
  "example_keyed = StructOf ''Keyed'' [(''Key'', 0, PtrTo id_type), (''Name'', 8, string_type)]"

definition example_pointer_methods :: env where
  "example_pointer_methods =
     \<lparr>methodsOf = (\<lambda>t. if t = PtrTo id_type then [''String''] else []),
      promotedField = (\<lambda>t n. None),
      compareTypes = (\<lambda>a b. (string_less (type_String a) (type_String b), a = b)),
      maxUserAttribute = 5\<rparr>"

definition example_keyed_mappings :: schemaMappings where
  "example_keyed_mappings =
     \<lparr>attrTypes' = [(User ''k'', stringer_type)],
      entityMappings = [(PtrTo example_keyed, [(User ''k'', [''Key''])])]\<rparr>"

definition example_mismatch :: schemaMappings where
  "example_mismatch =
     \<lparr>attrTypes' = [],
      entityMappings = [(PtrTo example_plain, [(User ''id'', [''ID''])]),
                        (PtrTo example_optional, [(User ''id'', [''Name''])])]\<rparr>"

section \<open>The attribute table and the entity types while a schema is built\<close>

lemma attrs_ok_new: "attrs_ok (new_Schema n)"
  by (simp add: attrs_ok_def new_Schema_def)

lemma attrs_ok_lookup:
  "attrs_ok sb \<Longrightarrow> attrToOrdinal sb a = Some i \<longleftrightarrow> i < length (attrs sb) \<and> attrs sb ! i = a"
  unfolding attrs_ok_def
  by (metis domI in_set_conv_nth option.inject)

lemma attrs_ok_None:
  "attrs_ok sb \<Longrightarrow> attrToOrdinal sb a = None \<longleftrightarrow> a \<notin> set (attrs sb)"
  unfolding attrs_ok_def by (metis domIff)

lemma maybeAddAttribute_frame:
  assumes "maybeAddAttribute E sb a t = Inr (ord, sb')"
  shows "entityTypes sb' = entityTypes sb" "entityTypeSchemas sb' = entityTypeSchemas sb"
    "objects sb' = objects sb" "name sb' = name sb"
    "selfOrdinal sb' = selfOrdinal sb" "typeOrdinal sb' = typeOrdinal sb"
  using assms
  by (auto simp: maybeAddAttribute_def Let_def split: option.splits if_splits sum.splits)

lemma maybeAddAttribute_new:
  assumes "attrToOrdinal sb a = None"
  shows "maybeAddAttribute E sb a t =
     (if length (attrs sb) \<ge> maxUserAttribute E then Inl (PError too_many_attributes)
      else Inr (length (attrs sb),
                sb\<lparr>attrs := attrs sb @ [a], attrTypes := attrTypes sb @ [t],
                   attrToOrdinal := (attrToOrdinal sb)(a \<mapsto> length (attrs sb))\<rparr>))"
  using assms by (simp add: maybeAddAttribute_def Let_def)

lemma maybeAddAttribute_old:
  assumes "attrToOrdinal sb a = Some ord" "ord < length (attrTypes sb)"
  shows "maybeAddAttribute E sb a t =
     (case checkType E t (attrTypes sb ! ord) of
        Inl p \<Rightarrow> Inl p
      | Inr (Some err) \<Rightarrow> Inl (PError (type_mismatch_for err a))
      | Inr None \<Rightarrow> Inr (ord, sb))"
  using assms by (simp add: maybeAddAttribute_def)

lemma maybeAddAttribute_ok:
  assumes ok: "attrs_ok sb" and r: "maybeAddAttribute E sb a t = Inr (ord, sb')"
  shows "attrs_ok sb'" and "attrs sb' = register (attrs sb) a"
    and "attrToOrdinal sb' a = Some ord"
    and "take (length (attrTypes sb)) (attrTypes sb') = attrTypes sb"
proof -
  show "attrs_ok sb'"
  proof (cases "attrToOrdinal sb a")
    case None
    then have na: "a \<notin> set (attrs sb)" using ok attrs_ok_None by blast
    from None r have sb': "sb' = sb\<lparr>attrs := attrs sb @ [a], attrTypes := attrTypes sb @ [t],
                   attrToOrdinal := (attrToOrdinal sb)(a \<mapsto> length (attrs sb))\<rparr>"
      by (auto simp: maybeAddAttribute_new split: if_splits)
    show ?thesis using ok na unfolding sb' attrs_ok_def
      by (auto simp: nth_append less_Suc_eq)
  next
    case (Some i)
    then show ?thesis using ok r
      by (auto simp: maybeAddAttribute_def split: if_splits sum.splits option.splits)
  qed
  show "attrs sb' = register (attrs sb) a"
    using ok r attrs_ok_None[OF ok, of a]
    by (auto simp: maybeAddAttribute_def register_def Let_def split: if_splits sum.splits option.splits)
  show "attrToOrdinal sb' a = Some ord"
    using r by (auto simp: maybeAddAttribute_def Let_def split: if_splits sum.splits option.splits)
  show "take (length (attrTypes sb)) (attrTypes sb') = attrTypes sb"
    using r by (auto simp: maybeAddAttribute_def Let_def split: if_splits sum.splits option.splits)
qed

lemma same_entities_refl: "same_entities sb sb"
  by (simp add: same_entities_def)

lemma same_entities_trans:
  "same_entities a b \<Longrightarrow> same_entities b c \<Longrightarrow> same_entities a c"
  by (simp add: same_entities_def)

lemma attr_step_refl: "attr_step E sb [] sb"
  by (simp add: attr_step_def)

lemma attr_step_trans:
  "attr_step E a xs b \<Longrightarrow> attr_step E b ys c \<Longrightarrow> attr_step E a (xs @ ys) c"
  by (auto simp: attr_step_def)

lemma maybeAddAttribute_bound:
  assumes "maybeAddAttribute E sb a t = Inr (ord, sb')"
    and "length (attrs sb) \<le> maxUserAttribute E"
  shows "length (attrs sb') \<le> maxUserAttribute E"
  using assms
  by (auto simp: maybeAddAttribute_def Let_def split: if_splits sum.splits option.splits)

lemma maybeAddAttribute_step:
  assumes "maybeAddAttribute E sb a t = Inr (ord, sb')"
  shows "attr_step E sb [a] sb'" and "same_entities sb sb'"
  using maybeAddAttribute_ok(1,2)[OF _ assms] maybeAddAttribute_frame[OF assms]
    maybeAddAttribute_bound[OF assms]
  by (auto simp: attr_step_def same_entities_def)

lemma addTypeAttrMapping_reg:
  assumes "addTypeAttrMapping E sb a t sel = Inr (fi, sb')"
  shows "\<exists>typ. maybeAddAttribute E sb a typ = Inr (attr fi, sb') \<and> field_typ fi = typ"
  using assms
  by (auto simp: addTypeAttrMapping_def split: sum.splits prod.splits if_splits)

lemma addTypeAttrMapping_step:
  assumes "addTypeAttrMapping E sb a t sel = Inr (fi, sb')"
  shows "attr_step E sb [a] sb'" and "same_entities sb sb'"
  using addTypeAttrMapping_reg[OF assms] maybeAddAttribute_step by blast+

lemma add_selectors_step:
  "add_selectors E a t sels (fis, sb) = Inr (fis', sb') \<Longrightarrow>
     attr_step E sb (replicate (length sels) a) sb' \<and> same_entities sb sb'"
proof (induction sels arbitrary: fis sb)
  case Nil
  then show ?case by (simp add: attr_step_refl same_entities_refl)
next
  case (Cons sel sels)
  from Cons.prems obtain fi sb1 where
    1: "addTypeAttrMapping E sb a t sel = Inr (fi, sb1)" and
    2: "add_selectors E a t sels (fis @ [fi], sb1) = Inr (fis', sb')"
    by (auto split: sum.splits)
  from Cons.IH[OF 2] addTypeAttrMapping_step[OF 1]
  show ?case
    using attr_step_trans[of E sb "[a]" sb1 "replicate (length sels) a" sb']
    by (auto intro: same_entities_trans)
qed

lemma add_attrMappings_step:
  "add_attrMappings E t ams (fis, sb) = Inr (fis', sb') \<Longrightarrow>
     attr_step E sb (registrations_of ams) sb' \<and> same_entities sb sb'"
proof (induction ams arbitrary: fis sb)
  case Nil
  then show ?case by (simp add: attr_step_refl same_entities_refl registrations_of_def)
next
  case (Cons am ams)
  from Cons.prems obtain fis1 sb1 where
    1: "add_selectors E (fst am) t (snd am) (fis, sb) = Inr (fis1, sb1)" and
    2: "add_attrMappings E t ams (fis1, sb1) = Inr (fis', sb')"
    by (auto split: sum.splits)
  from Cons.IH[OF 2] add_selectors_step[OF 1]
  show ?case
    using attr_step_trans[of E sb "replicate (length (snd am)) (fst am)" sb1 "registrations_of ams" sb']
    by (auto intro: same_entities_trans simp: registrations_of_def)
qed

lemma maybeAddTypeMapping_Inr:
  assumes "maybeAddTypeMapping E sb t ams = Inr sb'"
  shows "\<exists>fis sb1 ts. isStructPointer t = Inr True \<and>
           add_attrMappings E t ams ([], sb) = Inr (fis, sb1) \<and>
           typ' ts = t \<and> typID ts = length (entityTypes sb1) \<and>
           sb' = sb1\<lparr>entityTypeSchemas := AList.update t (length (objects sb1)) (entityTypeSchemas sb1),
                      entityTypes := entityTypes sb1 @ [length (objects sb1)],
                      objects := objects sb1 @ [ts]\<rparr>"
proof -
  from assms obtain fis sb1 where
    0: "isStructPointer t = Inr True" and
    1: "add_attrMappings E t ams ([], sb) = Inr (fis, sb1)"
    by (auto simp: maybeAddTypeMapping_def Let_def split: sum.splits bool.splits prod.splits)
  define ts where "ts = \<lparr>typ' = t, fields' = sort_key attr fis,
      attrFields = group_runs (sort_key attr fis) Map.empty, typID = length (entityTypes sb1)\<rparr>"
  have "typ' ts = t" "typID ts = length (entityTypes sb1)" by (simp_all add: ts_def)
  moreover have "sb' = sb1\<lparr>entityTypeSchemas := AList.update t (length (objects sb1)) (entityTypeSchemas sb1),
                      entityTypes := entityTypes sb1 @ [length (objects sb1)],
                      objects := objects sb1 @ [ts]\<rparr>"
    using assms 0 1 by (simp add: maybeAddTypeMapping_def Let_def ts_def)
  ultimately show ?thesis using 0 1 by blast
qed

lemma maybeAddTypeMapping_step:
  assumes "maybeAddTypeMapping E sb t ams = Inr sb'"
  shows "attr_step E sb (registrations_of ams) sb'"
proof -
  from maybeAddTypeMapping_Inr[OF assms] obtain fis sb1 ts where
    1: "add_attrMappings E t ams ([], sb) = Inr (fis, sb1)" and
    2: "sb' = sb1\<lparr>entityTypeSchemas := AList.update t (length (objects sb1)) (entityTypeSchemas sb1),
                      entityTypes := entityTypes sb1 @ [length (objects sb1)],
                      objects := objects sb1 @ [ts]\<rparr>"
    by blast
  from add_attrMappings_step[OF 1] show ?thesis
    unfolding 2 by (auto simp: attr_step_def attrs_ok_def)
qed

lemma maybeAddTypeMapping_entities:
  assumes "maybeAddTypeMapping E sb t ams = Inr sb'"
  shows "\<exists>ts. isStructPointer t = Inr True \<and> typ' ts = t \<and> typID ts = length (entityTypes sb) \<and>
           entityTypeSchemas sb' = AList.update t (length (objects sb)) (entityTypeSchemas sb) \<and>
           entityTypes sb' = entityTypes sb @ [length (objects sb)] \<and>
           objects sb' = objects sb @ [ts]"
proof -
  from maybeAddTypeMapping_Inr[OF assms] obtain fis sb1 ts where
    0: "isStructPointer t = Inr True" "typ' ts = t" "typID ts = length (entityTypes sb1)" and
    1: "add_attrMappings E t ams ([], sb) = Inr (fis, sb1)" and
    2: "sb' = sb1\<lparr>entityTypeSchemas := AList.update t (length (objects sb1)) (entityTypeSchemas sb1),
                      entityTypes := entityTypes sb1 @ [length (objects sb1)],
                      objects := objects sb1 @ [ts]\<rparr>"
    by blast
  from add_attrMappings_step[OF 1] have "same_entities sb sb1" by simp
  then show ?thesis using 0 unfolding 2 by (auto simp: same_entities_def)
qed

lemma add_attrTypes_step:
  "add_attrTypes E decls sb = Inr sb' \<Longrightarrow>
     attr_step E sb (map fst decls) sb' \<and> same_entities sb sb'"
proof (induction decls arbitrary: sb)
  case Nil
  then show ?case by (simp add: attr_step_refl same_entities_refl)
next
  case (Cons d decls)
  from Cons.prems obtain ord sb1 where
    1: "maybeAddAttribute E sb (fst d) (snd d) = Inr (ord, sb1)" and
    2: "add_attrTypes E decls sb1 = Inr sb'"
    by (auto split: sum.splits)
  from Cons.IH[OF 2] maybeAddAttribute_step[OF 1]
  show ?case
    using attr_step_trans[of E sb "[fst d]" sb1 "map fst decls" sb']
    by (auto intro: same_entities_trans)
qed

lemma add_entityMappings_step:
  "add_entityMappings E tms sb = Inr sb' \<Longrightarrow>
     attr_step E sb (concat (map (\<lambda>tm. registrations_of (snd tm)) tms)) sb'"
proof (induction tms arbitrary: sb)
  case Nil
  then show ?case by (simp add: attr_step_refl)
next
  case (Cons tm tms)
  from Cons.prems obtain sb1 where
    1: "maybeAddTypeMapping E sb (fst tm) (snd tm) = Inr sb1" and
    2: "add_entityMappings E tms sb1 = Inr sb'"
    by (auto split: sum.splits)
  from Cons.IH[OF 2] maybeAddTypeMapping_step[OF 1]
  show ?case
    using attr_step_trans[of E sb "registrations_of (snd tm)" sb1 _ sb']
    by auto
qed

lemma add_reserved_Inr:
  assumes "add_reserved E sb = Inr sb'"
  shows "\<exists>o1 sb1 o2 sb2. maybeAddAttribute E sb Self emptyInterfaceType = Inr (o1, sb1) \<and>
           attrToOrdinal sb1 Self = Some o1 \<and>
           maybeAddAttribute E (sb1\<lparr>selfOrdinal := o1\<rparr>) Type reflectTypeType = Inr (o2, sb2) \<and>
           attrToOrdinal sb2 Type = Some o2 \<and>
           sb' = sb2\<lparr>typeOrdinal := o2\<rparr>"
proof -
  from assms obtain o1 sb1 where 1: "maybeAddAttribute E sb Self emptyInterfaceType = Inr (o1, sb1)"
    by (auto simp: add_reserved_def split: sum.splits)
  have a1: "attrToOrdinal sb1 Self = Some o1"
    using 1 by (auto simp: maybeAddAttribute_def Let_def split: if_splits sum.splits option.splits)
  then have m1: "mustGetOrdinal sb1 Self = Inr o1"
    by (simp add: mustGetOrdinal_def getOrdinal_def)
  from assms 1 m1 obtain o2 sb2 where
    2: "maybeAddAttribute E (sb1\<lparr>selfOrdinal := o1\<rparr>) Type reflectTypeType = Inr (o2, sb2)"
    by (auto simp: add_reserved_def split: sum.splits)
  have a2: "attrToOrdinal sb2 Type = Some o2"
    using 2 by (auto simp: maybeAddAttribute_def Let_def split: if_splits sum.splits option.splits)
  then have m2: "mustGetOrdinal sb2 Type = Inr o2"
    by (simp add: mustGetOrdinal_def getOrdinal_def)
  from assms 1 m1 2 m2 have "sb' = sb2\<lparr>typeOrdinal := o2\<rparr>"
    by (simp add: add_reserved_def)
  with 1 a1 2 a2 show ?thesis by blast
qed

lemma same_attrs_refl: "same_attrs e e"
  by (simp add: same_attrs_def)

lemma same_attrs_trans: "same_attrs a b \<Longrightarrow> same_attrs b c \<Longrightarrow> same_attrs a c"
  by (simp add: same_attrs_def)

lemma ents_ok_new: "ents_ok (new_Schema n)"
  by (simp add: ents_ok_def new_Schema_def)

lemma ents_ok_length: "ents_ok e \<Longrightarrow> length (entityTypes e) = length (objects e)"
  unfolding ents_ok_def using distinct_card[of "entityTypes e"] by auto

lemma ents_ok_ptr: "ents_ok e \<Longrightarrow> i < length (entityTypes e) \<Longrightarrow> entityTypes e ! i < length (objects e)"
  unfolding ents_ok_def using nth_mem[of i "entityTypes e"] by auto

lemma deref_ok:
  "ents_ok e \<Longrightarrow> i < length (entityTypes e) \<Longrightarrow> deref e i = Inr (objects e ! (entityTypes e ! i))"
  by (simp add: deref_def ents_ok_ptr)

lemma Less_ok:
  "ents_ok e \<Longrightarrow> i < length (entityTypes e) \<Longrightarrow> j < length (entityTypes e) \<Longrightarrow>
   Less E e i j = Inr (fst (compareTypes E (typ' (objects e ! (entityTypes e ! i)))
                                          (typ' (objects e ! (entityTypes e ! j)))))"
  by (simp add: Less_def deref_ok)

lemma Swap_ok:
  assumes ok: "ents_ok e" and i: "i < length (entityTypes e)" and j: "j < length (entityTypes e)"
    and ij: "i \<noteq> j"
  shows "\<exists>e'. Swap e i j = Inr e' \<and> ents_ok e' \<and> same_attrs e e' \<and>
           entityTypes e' = (entityTypes e)[i := entityTypes e ! j, j := entityTypes e ! i]"
proof -
  let ?ets = "entityTypes e" and ?objs = "objects e"
  let ?pi = "?ets ! i" and ?pj = "?ets ! j"
  have pi: "?pi < length ?objs" and pj: "?pj < length ?objs"
    using ok i j by (simp_all add: ents_ok_ptr)
  have d: "distinct ?ets" using ok by (simp add: ents_ok_def)
  have pij: "?pi \<noteq> ?pj" using d i j ij by (simp add: nth_eq_iff_index_eq)
  define objs1 where "objs1 = ?objs[?pi := (?objs ! ?pi)\<lparr>typID := j\<rparr>]"
  define objs2 where "objs2 = objs1[?pj := (objs1 ! ?pj)\<lparr>typID := i\<rparr>]"
  define e' where "e' = e\<lparr>objects := objs2, entityTypes := ?ets[i := ?pj, j := ?pi]\<rparr>"
  have s1: "set_typID e i j = Inr (e\<lparr>objects := objs1\<rparr>)"
    using ok i by (simp add: set_typID_def deref_ok objs1_def)
  have d2: "deref (e\<lparr>objects := objs1\<rparr>) j = Inr (objs1 ! ?pj)"
    using j pj by (simp add: deref_def objs1_def)
  have s2: "set_typID (e\<lparr>objects := objs1\<rparr>) j i = Inr (e\<lparr>objects := objs2\<rparr>)"
    using d2 by (simp add: set_typID_def objs2_def)
  have sw: "Swap e i j = Inr e'"
    by (simp add: Swap_def s1 s2 e'_def)
  have len: "length objs2 = length ?objs" by (simp add: objs2_def objs1_def)
  have tyeq: "map typ' objs2 = map typ' ?objs"
    using pi pj by (auto simp: objs2_def objs1_def list_eq_iff_nth_eq nth_list_update)
  have idi: "typID (objs2 ! ?pj) = i" using pj by (simp add: objs2_def objs1_def)
  have idj: "typID (objs2 ! ?pi) = j" using pi pij by (simp add: objs2_def objs1_def)
  have ido: "\<And>p. p \<noteq> ?pi \<Longrightarrow> p \<noteq> ?pj \<Longrightarrow> objs2 ! p = ?objs ! p"
    by (simp add: objs2_def objs1_def)
  have d': "distinct (?ets[i := ?pj, j := ?pi])"
    using d i j by (simp add: distinct_swap)
  have s': "set (?ets[i := ?pj, j := ?pi]) = set ?ets"
    using i j by (simp add: set_swap)
  have ids: "\<forall>k<length ?ets. typID (objs2 ! (?ets[i := ?pj, j := ?pi] ! k)) = k"
  proof (intro allI impI)
    fix k assume k: "k < length ?ets"
    show "typID (objs2 ! (?ets[i := ?pj, j := ?pi] ! k)) = k"
    proof (cases "k = j")
      case True then show ?thesis using j idj by simp
    next
      case kj: False
      show ?thesis
      proof (cases "k = i")
        case True then show ?thesis using i kj idi by simp
      next
        case ki: False
        have "?ets ! k \<noteq> ?pi" "?ets ! k \<noteq> ?pj"
          using d k i j ki kj by (simp_all add: nth_eq_iff_index_eq)
        then have "objs2 ! (?ets ! k) = ?objs ! (?ets ! k)" using ido by blast
        then show ?thesis using ok k ki kj by (simp add: ents_ok_def)
      qed
    qed
  qed
  have tab: "\<forall>(t, p) \<in> set (entityTypeSchemas e). p < length objs2 \<and> typ' (objs2 ! p) = t"
  proof -
    have "\<And>p. p < length ?objs \<Longrightarrow> typ' (objs2 ! p) = typ' (?objs ! p)"
      using tyeq len by (metis nth_map)
    then show ?thesis using ok len by (auto simp: ents_ok_def)
  qed
  have "ents_ok e'"
    using d' s' ids tab ok len unfolding ents_ok_def e'_def by simp
  moreover have "same_attrs e e'" using tyeq by (simp add: same_attrs_def e'_def)
  moreover have "entityTypes e' = ?ets[i := ?pj, j := ?pi]" by (simp add: e'_def)
  ultimately show ?thesis using sw by blast
qed

lemma insertionSort_j_ok:
  "ents_ok e \<Longrightarrow> j < length (entityTypes e) \<Longrightarrow>
   \<exists>e'. insertionSort_j E e j = Inr e' \<and> ents_ok e' \<and> same_attrs e e' \<and>
        length (entityTypes e') = length (entityTypes e)"
proof (induction j arbitrary: e)
  case 0
  then show ?case by (simp add: same_attrs_refl)
next
  case (Suc j)
  have j: "j < length (entityTypes e)" using Suc.prems by simp
  show ?case
  proof (cases "fst (compareTypes E (typ' (objects e ! (entityTypes e ! Suc j)))
                                    (typ' (objects e ! (entityTypes e ! j))))")
    case False
    then show ?thesis using Suc.prems j by (simp add: Less_ok same_attrs_refl)
  next
    case True
    from Swap_ok[OF Suc.prems(1) Suc.prems(2) j] obtain e1 where
      1: "Swap e (Suc j) j = Inr e1" "ents_ok e1" "same_attrs e e1"
         "entityTypes e1 = (entityTypes e)[Suc j := entityTypes e ! j, j := entityTypes e ! Suc j]"
      by auto
    have "j < length (entityTypes e1)" using 1(4) j by simp
    from Suc.IH[OF 1(2) this] obtain e' where
      2: "insertionSort_j E e1 j = Inr e'" "ents_ok e'" "same_attrs e1 e'"
         "length (entityTypes e') = length (entityTypes e1)"
      by auto
    have "insertionSort_j E e (Suc j) = Inr e'"
      using True Suc.prems j 1(1) 2(1) by (simp add: Less_ok)
    then show ?thesis using 1 2 same_attrs_trans by auto
  qed
qed

lemma insertionSort_i_ok:
  "ents_ok e \<Longrightarrow> \<forall>i\<in>set js. i < length (entityTypes e) \<Longrightarrow>
   \<exists>e'. insertionSort_i E js e = Inr e' \<and> ents_ok e' \<and> same_attrs e e' \<and>
        length (entityTypes e') = length (entityTypes e)"
proof (induction js arbitrary: e)
  case Nil
  then show ?case by (simp add: same_attrs_refl)
next
  case (Cons i js)
  from insertionSort_j_ok[OF Cons.prems(1), of i E] Cons.prems(2) obtain e1 where
    1: "insertionSort_j E e i = Inr e1" "ents_ok e1" "same_attrs e e1"
       "length (entityTypes e1) = length (entityTypes e)"
    by auto
  from Cons.IH[OF 1(2)] Cons.prems(2) 1(4) obtain e' where
    2: "insertionSort_i E js e1 = Inr e'" "ents_ok e'" "same_attrs e1 e'"
       "length (entityTypes e') = length (entityTypes e1)"
    by auto
  show ?case using 1 2 same_attrs_trans by auto
qed

lemma sort_Sort_ok:
  assumes "ents_ok e"
  shows "\<exists>e'. sort_Sort E e = Inr e' \<and> ents_ok e' \<and> same_attrs e e' \<and>
           length (entityTypes e') = length (entityTypes e)"
proof -
  have "\<forall>i\<in>set [1..<Len e]. i < length (entityTypes e)"
    using assms by (auto simp: Len_def ents_ok_def)
  from insertionSort_i_ok[OF assms this] show ?thesis
    by (simp add: sort_Sort_def Let_def)
qed

lemma ents_ok_same_entities: "same_entities sb sb' \<Longrightarrow> ents_ok sb \<Longrightarrow> ents_ok sb'"
  by (simp add: same_entities_def ents_ok_def)

lemma length_AList_update: "length (AList.update k v al) \<le> Suc (length al)"
  by (induction al) auto

lemma set_AList_update: "set (AList.update k v al) \<subseteq> insert (k, v) (set al)"
  by (induction al) auto

lemma maybeAddTypeMapping_ents_ok:
  assumes r: "maybeAddTypeMapping E sb t ams = Inr sb'" and ok: "ents_ok sb"
  shows "ents_ok sb'"
proof -
  from maybeAddTypeMapping_entities[OF r] obtain ts where
    ts: "typ' ts = t" "typID ts = length (entityTypes sb)" and
    1: "entityTypeSchemas sb' = AList.update t (length (objects sb)) (entityTypeSchemas sb)"
       "entityTypes sb' = entityTypes sb @ [length (objects sb)]"
       "objects sb' = objects sb @ [ts]"
    by blast
  have len: "length (entityTypes sb) = length (objects sb)" using ok by (rule ents_ok_length)
  have a: "distinct (entityTypes sb')" using ok unfolding 1 ents_ok_def by auto
  have b: "set (entityTypes sb') = {0..<length (objects sb')}"
    using ok unfolding 1 ents_ok_def by auto
  have c: "\<forall>k<length (entityTypes sb'). typID (objects sb' ! (entityTypes sb' ! k)) = k"
  proof (intro allI impI)
    fix k assume "k < length (entityTypes sb')"
    then consider "k < length (entityTypes sb)" | "k = length (entityTypes sb)"
      unfolding 1 by (auto simp: less_Suc_eq)
    then show "typID (objects sb' ! (entityTypes sb' ! k)) = k"
    proof cases
      case 1
      then have "entityTypes sb ! k < length (objects sb)" using ok by (simp add: ents_ok_ptr)
      then show ?thesis using 1 ok unfolding \<open>entityTypes sb' = _\<close> \<open>objects sb' = _\<close>
        by (simp add: nth_append ents_ok_def)
    next
      case 2
      then show ?thesis using ts len unfolding \<open>entityTypes sb' = _\<close> \<open>objects sb' = _\<close>
        by (simp add: nth_append)
    qed
  qed
  have d: "\<forall>(t, p) \<in> set (entityTypeSchemas sb'). p < length (objects sb') \<and> typ' (objects sb' ! p) = t"
  proof -
    have "set (entityTypeSchemas sb') \<subseteq> insert (t, length (objects sb)) (set (entityTypeSchemas sb))"
      unfolding 1 by (rule set_AList_update)
    then show ?thesis using ok ts unfolding \<open>objects sb' = _\<close> ents_ok_def
      by (auto simp: nth_append)
  qed
  have e: "length (entityTypeSchemas sb') \<le> length (entityTypes sb')"
    using ok length_AList_update[of t "length (objects sb)" "entityTypeSchemas sb"]
    unfolding 1 ents_ok_def by simp
  show ?thesis using a b c d e unfolding ents_ok_def by blast
qed

lemma add_entityMappings_ents_ok:
  "add_entityMappings E tms sb = Inr sb' \<Longrightarrow> ents_ok sb \<Longrightarrow> ents_ok sb'"
proof (induction tms arbitrary: sb)
  case Nil
  then show ?case by simp
next
  case (Cons tm tms)
  from Cons.prems obtain sb1 where
    1: "maybeAddTypeMapping E sb (fst tm) (snd tm) = Inr sb1" and
    2: "add_entityMappings E tms sb1 = Inr sb'"
    by (auto split: sum.splits)
  show ?case using Cons.IH[OF 2] maybeAddTypeMapping_ents_ok[OF 1] Cons.prems(2) by simp
qed

lemma attrs_ok_ordinal_update:
  "attrs_ok (sb\<lparr>selfOrdinal := x\<rparr>) = attrs_ok sb"
  "attrs_ok (sb\<lparr>typeOrdinal := x\<rparr>) = attrs_ok sb"
  by (simp_all add: attrs_ok_def)

lemma add_reserved_step:
  assumes "add_reserved E sb = Inr sb'"
  shows "attr_step E sb [Self, Type] sb'" and "ents_ok sb \<Longrightarrow> ents_ok sb'"
    and "attrs_ok sb \<Longrightarrow> attrToOrdinal sb' Self = Some (selfOrdinal sb')"
    and "attrToOrdinal sb' Type = Some (typeOrdinal sb')"
proof -
  from add_reserved_Inr[OF assms] obtain o1 sb1 o2 sb2 where
    1: "maybeAddAttribute E sb Self emptyInterfaceType = Inr (o1, sb1)" and
    a1: "attrToOrdinal sb1 Self = Some o1" and
    2: "maybeAddAttribute E (sb1\<lparr>selfOrdinal := o1\<rparr>) Type reflectTypeType = Inr (o2, sb2)" and
    a2: "attrToOrdinal sb2 Type = Some o2" and
    3: "sb' = sb2\<lparr>typeOrdinal := o2\<rparr>"
    by blast
  have s1: "attr_step E sb [Self] (sb1\<lparr>selfOrdinal := o1\<rparr>)"
    using maybeAddAttribute_step(1)[OF 1] by (simp add: attr_step_def attrs_ok_ordinal_update)
  have s2: "attr_step E (sb1\<lparr>selfOrdinal := o1\<rparr>) [Type] sb'"
    using maybeAddAttribute_step(1)[OF 2] unfolding 3 by (simp add: attr_step_def attrs_ok_ordinal_update)
  show "attr_step E sb [Self, Type] sb'"
    using attr_step_trans[OF s1 s2] by simp
  have e1: "same_entities sb (sb1\<lparr>selfOrdinal := o1\<rparr>)"
    using maybeAddAttribute_step(2)[OF 1] by (simp add: same_entities_def)
  have e2: "same_entities (sb1\<lparr>selfOrdinal := o1\<rparr>) sb'"
    using maybeAddAttribute_step(2)[OF 2] unfolding 3 by (simp add: same_entities_def)
  show "ents_ok sb \<Longrightarrow> ents_ok sb'"
    using ents_ok_same_entities[OF same_entities_trans[OF e1 e2]] .
  show "attrToOrdinal sb' Type = Some (typeOrdinal sb')"
    using a2 unfolding 3 by simp
  show "attrs_ok sb \<Longrightarrow> attrToOrdinal sb' Self = Some (selfOrdinal sb')"
  proof -
    assume ok: "attrs_ok sb"
    have ok1: "attrs_ok (sb1\<lparr>selfOrdinal := o1\<rparr>)"
      using maybeAddAttribute_ok(1)[OF ok 1] by (simp add: attrs_ok_ordinal_update)
    have so: "selfOrdinal sb2 = o1" using maybeAddAttribute_frame(5)[OF 2] by simp
    have "attrToOrdinal sb2 Self = Some o1"
      using 2 a1 by (auto simp: maybeAddAttribute_def Let_def split: if_splits sum.splits option.splits)
    then show ?thesis unfolding 3 using so by simp
  qed
qed

lemma buildSchema_Inr:
  assumes "buildSchema E n m = Inr sc"
  shows "valid_schema E sc" and "attrs sc = foldl register [] (registrations m)" and "name sc = n"
proof -
  from assms obtain sb1 sb2 sb3 where
    1: "add_attrTypes E (attrTypes' m) (new_Schema n) = Inr sb1" and
    2: "add_entityMappings E (entityMappings m) sb1 = Inr sb2" and
    3: "add_reserved E sb2 = Inr sb3" and
    4: "sort_Sort E sb3 = Inr sc"
    by (auto simp: buildSchema_def split: sum.splits)
  note s1 = add_attrTypes_step[OF 1]
  note s2 = add_entityMappings_step[OF 2]
  note s3 = add_reserved_step[OF 3]
  have st: "attr_step E (new_Schema n) (registrations m) sb3"
    using attr_step_trans[OF attr_step_trans[OF conjunct1[OF s1] s2] s3(1)]
    by (simp add: registrations_def caller_registrations_def)
  have 0: "attrs (new_Schema n) = []" "name (new_Schema n) = n" by (simp_all add: new_Schema_def)
  have a3: "attrs_ok sb3" "attrs sb3 = foldl register [] (registrations m)"
    "length (attrs sb3) \<le> maxUserAttribute E" "name sb3 = n"
    using st attrs_ok_new[of n] 0 by (auto simp: attr_step_def)
  have ok2: "attrs_ok sb2"
    using attr_step_trans[OF conjunct1[OF s1] s2] attrs_ok_new[of n] by (auto simp: attr_step_def)
  have e1: "ents_ok sb1" using ents_ok_same_entities[OF conjunct2[OF s1] ents_ok_new] .
  have e2: "ents_ok sb2" using add_entityMappings_ents_ok[OF 2 e1] .
  have e3: "ents_ok sb3" using s3(2)[OF e2] .
  from sort_Sort_ok[OF e3, of E] 4 have e4: "ents_ok sc" "same_attrs sb3 sc" by auto
  show "valid_schema E sc"
    using a3 e4 s3(3)[OF ok2] s3(4) by (auto simp: valid_schema_def same_attrs_def attrs_ok_def)
  show "attrs sc = foldl register [] (registrations m)" using a3 e4 by (simp add: same_attrs_def)
  show "name sc = n" using a3 e4 by (simp add: same_attrs_def)
qed

lemmas build_simps =
  buildSchema_def add_reserved_def new_Schema_def maybeAddAttribute_def checkType_def
  mustGetOrdinal_def getOrdinal_def sort_Sort_def Len_def Let_def
  emptyInterfaceType_def reflectTypeType_def

section \<open>The order of first registration\<close>

lemma register_old: "x \<in> set acc \<Longrightarrow> register acc x = acc"
  by (simp add: register_def)

lemma register_new: "x \<notin> set acc \<Longrightarrow> register acc x = acc @ [x]"
  by (simp add: register_def)

lemma set_register: "set (register acc x) = insert x (set acc)"
  by (auto simp: register_def)

lemma distinct_register: "distinct acc \<Longrightarrow> distinct (register acc x)"
  by (auto simp: register_def)

lemma foldl_register_set: "set (foldl register acc xs) = set acc \<union> set xs"
  by (induction xs arbitrary: acc) (auto simp: set_register)

lemma foldl_register_distinct: "distinct acc \<Longrightarrow> distinct (foldl register acc xs)"
  by (induction xs arbitrary: acc) (auto simp: distinct_register)

lemma foldl_register_prefix: "\<exists>more. foldl register acc xs = acc @ more"
proof (induction xs arbitrary: acc)
  case Nil
  then show ?case by simp
next
  case (Cons x xs)
  from Cons.IH[of "register acc x"] obtain more where
    "foldl register (register acc x) xs = register acc x @ more" by blast
  then show ?case by (cases "x \<in> set acc") (simp_all add: register_old register_new)
qed

lemma foldl_register_first:
  assumes "a \<in> set xs"
  shows "\<exists>more. foldl register [] xs =
           foldl register [] (takeWhile (\<lambda>x. x \<noteq> a) xs) @ a # more"
proof -
  let ?pre = "takeWhile (\<lambda>x. x \<noteq> a) xs"
  have "dropWhile (\<lambda>x. x \<noteq> a) xs \<noteq> []"
    using assms by (auto simp: dropWhile_eq_Nil_conv)
  then obtain y rest where dw: "dropWhile (\<lambda>x. x \<noteq> a) xs = y # rest"
    by (cases "dropWhile (\<lambda>x. x \<noteq> a) xs") auto
  have "y = a" using hd_dropWhile[of "\<lambda>x. x \<noteq> a" xs] dw by auto
  then have xs: "xs = ?pre @ a # rest"
    using takeWhile_dropWhile_id[of "\<lambda>x. x \<noteq> a" xs] dw by simp
  have na: "a \<notin> set (foldl register [] ?pre)"
    using set_takeWhileD[of a "\<lambda>x. x \<noteq> a" xs] by (auto simp: foldl_register_set)
  have "foldl register [] xs = foldl register (register (foldl register [] ?pre) a) rest"
    by (subst xs) simp
  also have "register (foldl register [] ?pre) a = foldl register [] ?pre @ [a]"
    using na by (simp add: register_new)
  finally show ?thesis
    using foldl_register_prefix[of "foldl register [] ?pre @ [a]" rest] by auto
qed

lemma foldl_register_index:
  assumes "a \<in> set xs"
  shows "card (set (takeWhile (\<lambda>x. x \<noteq> a) xs)) < length (foldl register [] xs) \<and>
         foldl register [] xs ! card (set (takeWhile (\<lambda>x. x \<noteq> a) xs)) = a"
proof -
  let ?pre = "takeWhile (\<lambda>x. x \<noteq> a) xs"
  from foldl_register_first[OF assms] obtain more where
    1: "foldl register [] xs = foldl register [] ?pre @ a # more" by blast
  have "length (foldl register [] ?pre) = card (set ?pre)"
    using distinct_card[OF foldl_register_distinct[of "[]" ?pre]]
    by (simp add: foldl_register_set)
  then show ?thesis unfolding 1 by (simp add: nth_append)
qed

lemma takeWhile_until:
  "a \<notin> set xs \<Longrightarrow> takeWhile (\<lambda>x. x \<noteq> a) (xs @ a # ys) = xs"
  by (induction xs) auto

lemma buildSchema_ordinal_of:
  assumes "buildSchema E n m = Inr sc" and "a \<in> set (registrations m)"
  shows "attrToOrdinal sc a = Some (card (set (takeWhile (\<lambda>x. x \<noteq> a) (registrations m))))"
proof -
  note b = buildSchema_Inr[OF assms(1)]
  have ok: "attrs_ok sc" using b(1) by (simp add: valid_schema_def)
  show ?thesis
    using foldl_register_index[OF assms(2)] attrs_ok_lookup[OF ok, of a] b(2) by simp
qed

lemma buildSchema_length_attrs:
  assumes "buildSchema E n m = Inr sc"
  shows "length (attrs sc) = card (set (registrations m))"
proof -
  note b = buildSchema_Inr[OF assms(1)]
  have "distinct (attrs sc)" using b(1) by (simp add: valid_schema_def attrs_ok_def)
  then show ?thesis using distinct_card[of "attrs sc"] unfolding b(2)
    by (simp add: foldl_register_set)
qed

section \<open>Where the limit on the attributes stops a build\<close>

lemma attr_step_set:
  "attr_step E sb as sb' \<Longrightarrow> attrs_ok sb \<Longrightarrow>
     attrs_ok sb' \<and> set (attrs sb') = set (attrs sb) \<union> set as"
  by (simp add: attr_step_def foldl_register_set)

lemma checkType_Inl: "checkType E t e = Inl p \<Longrightarrow> \<exists>s. p = PString s"
  by (cases e) (auto simp: checkType_def split: if_splits)

lemma maybeAddAttribute_too_many:
  assumes "maybeAddAttribute E sb a t = Inl (PError too_many_attributes)" and "attrs_ok sb"
  shows "maxUserAttribute E < card (set (attrs sb) \<union> {a})"
proof -
  have n: "attrToOrdinal sb a = None"
    using assms(1) checkType_Inl[of E t]
    by (cases "attrToOrdinal sb a")
       (auto simp: maybeAddAttribute_def split: if_splits sum.splits option.splits)
  then have na: "a \<notin> set (attrs sb)" using attrs_ok_None[OF assms(2)] by simp
  have "maxUserAttribute E \<le> length (attrs sb)"
    using assms(1) n by (simp add: maybeAddAttribute_new split: if_splits)
  moreover have "card (set (attrs sb)) = length (attrs sb)"
    using assms(2) by (simp add: attrs_ok_def distinct_card)
  ultimately show ?thesis using na by simp
qed

lemma basic_kind_not_composite [simp]:
  "basic_kind k \<noteq> reflect_Ptr" "basic_kind k \<noteq> reflect_Struct"
  "basic_kind k \<noteq> reflect_Interface" "basic_kind k \<noteq> reflect_Invalid"
  by (cases k; simp)+

lemma Kind_Ptr: "Kind t = reflect_Ptr \<longleftrightarrow> (\<exists>e. t = PtrTo e)"
  by (cases t) auto

lemma Kind_Struct: "Kind t = reflect_Struct \<longleftrightarrow> (\<exists>n fs. t = StructOf n fs)"
  by (cases t) auto

lemma Kind_Interface: "Kind t = reflect_Interface \<longleftrightarrow> (\<exists>n ms. t = InterfaceOf n ms)"
  by (cases t) auto

lemma selector_names_Inl:
  "selector_names E sp sel names off cur = Inl p \<Longrightarrow> p \<noteq> PError too_many_attributes"
proof (induction names arbitrary: off cur)
  case Nil
  then show ?case by simp
next
  case (Cons n names)
  then show ?case
    by (cases cur) (auto split: option.splits prod.splits)
qed

lemma getOffsetAndTypeFromSelector_Inl:
  "getOffsetAndTypeFromSelector E t sel = Inl p \<Longrightarrow> p \<noteq> PError too_many_attributes"
  using selector_names_Inl
  by (cases t) (auto simp: getOffsetAndTypeFromSelector_def Let_def)

lemma makeFieldFlags_Inr: "\<exists>f ok. makeFieldFlags t = Inr (f, ok)"
  by (cases t) (auto simp: makeFieldFlags_def Let_def)

lemma addTypeAttrMapping_too_many:
  assumes "addTypeAttrMapping E sb a t sel = Inl (PError too_many_attributes)"
  shows "\<exists>typ. maybeAddAttribute E sb a typ = Inl (PError too_many_attributes)"
proof -
  from assms getOffsetAndTypeFromSelector_Inl[of E t sel] obtain off cur where
    1: "getOffsetAndTypeFromSelector E t sel = Inr (off, cur)"
    by (cases "getOffsetAndTypeFromSelector E t sel") (auto simp: addTypeAttrMapping_def)
  obtain f ok where 2: "makeFieldFlags cur = Inr (f, ok)" using makeFieldFlags_Inr by blast
  show ?thesis
    using assms 1 2
    by (cases cur) (auto simp: addTypeAttrMapping_def split: if_splits sum.splits)
qed

lemma card_Un_mono: "finite B \<Longrightarrow> A \<subseteq> B \<Longrightarrow> n < card A \<Longrightarrow> n < card B"
  using card_mono[of B A] by simp

lemma add_selectors_too_many:
  "add_selectors E a t sels (fis, sb) = Inl (PError too_many_attributes) \<Longrightarrow> attrs_ok sb \<Longrightarrow>
     maxUserAttribute E < card (set (attrs sb) \<union> set (replicate (length sels) a))"
proof (induction sels arbitrary: fis sb)
  case Nil
  then show ?case by simp
next
  case (Cons sel sels)
  show ?case
  proof (cases "addTypeAttrMapping E sb a t sel")
    case (Inl p)
    then have "p = PError too_many_attributes" using Cons.prems(1) by simp
    then obtain ty where "maybeAddAttribute E sb a ty = Inl (PError too_many_attributes)"
      using Inl addTypeAttrMapping_too_many by blast
    from maybeAddAttribute_too_many[OF this Cons.prems(2)] show ?thesis
      by (rule card_Un_mono[rotated 2]) auto
  next
    case (Inr r)
    obtain fi sb1 where r: "r = (fi, sb1)" by (cases r)
    have 2: "add_selectors E a t sels (fis @ [fi], sb1) = Inl (PError too_many_attributes)"
      using Cons.prems(1) Inr r by simp
    from attr_step_set[OF addTypeAttrMapping_step(1)[OF Inr[unfolded r]] Cons.prems(2)]
    have ok1: "attrs_ok sb1" and s1: "set (attrs sb1) = set (attrs sb) \<union> set [a]" by simp_all
    from Cons.IH[OF 2 ok1] show ?thesis
      by (rule card_Un_mono[rotated 2]) (auto simp: s1)
  qed
qed

lemma add_attrMappings_too_many:
  "add_attrMappings E t ams (fis, sb) = Inl (PError too_many_attributes) \<Longrightarrow> attrs_ok sb \<Longrightarrow>
     maxUserAttribute E < card (set (attrs sb) \<union> set (registrations_of ams))"
proof (induction ams arbitrary: fis sb)
  case Nil
  then show ?case by simp
next
  case (Cons am ams)
  show ?case
  proof (cases "add_selectors E (fst am) t (snd am) (fis, sb)")
    case (Inl p)
    then have "add_selectors E (fst am) t (snd am) (fis, sb) = Inl (PError too_many_attributes)"
      using Cons.prems(1) by simp
    from add_selectors_too_many[OF this Cons.prems(2)] show ?thesis
      by (rule card_Un_mono[rotated 2]) (auto simp: registrations_of_def)
  next
    case (Inr r)
    obtain fis1 sb1 where r: "r = (fis1, sb1)" by (cases r)
    have 2: "add_attrMappings E t ams (fis1, sb1) = Inl (PError too_many_attributes)"
      using Cons.prems(1) Inr r by simp
    from attr_step_set[OF conjunct1[OF add_selectors_step[OF Inr[unfolded r]]] Cons.prems(2)]
    have ok1: "attrs_ok sb1"
      and s1: "set (attrs sb1) = set (attrs sb) \<union> set (replicate (length (snd am)) (fst am))"
      by simp_all
    from Cons.IH[OF 2 ok1] show ?thesis
      by (rule card_Un_mono[rotated 2]) (auto simp: s1 registrations_of_def)
  qed
qed

lemma isStructPointer_Inr: "\<exists>b. isStructPointer t = Inr b"
  by (cases t) (auto simp: isStructPointer_def)

lemma maybeAddTypeMapping_too_many:
  assumes "maybeAddTypeMapping E sb t ams = Inl (PError too_many_attributes)" and "attrs_ok sb"
  shows "maxUserAttribute E < card (set (attrs sb) \<union> set (registrations_of ams))"
proof -
  obtain b where b: "isStructPointer t = Inr b" using isStructPointer_Inr by blast
  have "add_attrMappings E t ams ([], sb) = Inl (PError too_many_attributes)"
    using assms(1) b
    by (cases b; cases "add_attrMappings E t ams ([], sb)")
       (auto simp: maybeAddTypeMapping_def Let_def split: prod.splits)
  from add_attrMappings_too_many[OF this assms(2)] show ?thesis .
qed

lemma add_entityMappings_too_many:
  "add_entityMappings E tms sb = Inl (PError too_many_attributes) \<Longrightarrow> attrs_ok sb \<Longrightarrow>
     maxUserAttribute E <
       card (set (attrs sb) \<union> set (concat (map (\<lambda>tm. registrations_of (snd tm)) tms)))"
proof (induction tms arbitrary: sb)
  case Nil
  then show ?case by simp
next
  case (Cons tm tms)
  show ?case
  proof (cases "maybeAddTypeMapping E sb (fst tm) (snd tm)")
    case (Inl p)
    then have "maybeAddTypeMapping E sb (fst tm) (snd tm) = Inl (PError too_many_attributes)"
      using Cons.prems(1) by simp
    from maybeAddTypeMapping_too_many[OF this Cons.prems(2)] show ?thesis
      by (rule card_Un_mono[rotated 2]) auto
  next
    case (Inr sb1)
    have 2: "add_entityMappings E tms sb1 = Inl (PError too_many_attributes)"
      using Cons.prems(1) Inr by simp
    from attr_step_set[OF maybeAddTypeMapping_step[OF Inr] Cons.prems(2)]
    have ok1: "attrs_ok sb1"
      and s1: "set (attrs sb1) = set (attrs sb) \<union> set (registrations_of (snd tm))"
      by simp_all
    from Cons.IH[OF 2 ok1] show ?thesis
      by (rule card_Un_mono[rotated 2]) (auto simp: s1)
  qed
qed

lemma add_attrTypes_too_many:
  "add_attrTypes E decls sb = Inl (PError too_many_attributes) \<Longrightarrow> attrs_ok sb \<Longrightarrow>
     maxUserAttribute E < card (set (attrs sb) \<union> set (map fst decls))"
proof (induction decls arbitrary: sb)
  case Nil
  then show ?case by simp
next
  case (Cons d decls)
  show ?case
  proof (cases "maybeAddAttribute E sb (fst d) (snd d)")
    case (Inl p)
    then have "maybeAddAttribute E sb (fst d) (snd d) = Inl (PError too_many_attributes)"
      using Cons.prems(1) by simp
    from maybeAddAttribute_too_many[OF this Cons.prems(2)] show ?thesis
      by (rule card_Un_mono[rotated 2]) auto
  next
    case (Inr r)
    obtain ord sb1 where r: "r = (ord, sb1)" by (cases r)
    have 2: "add_attrTypes E decls sb1 = Inl (PError too_many_attributes)"
      using Cons.prems(1) Inr r by simp
    from attr_step_set[OF maybeAddAttribute_step(1)[OF Inr[unfolded r]] Cons.prems(2)]
    have ok1: "attrs_ok sb1" and s1: "set (attrs sb1) = set (attrs sb) \<union> set [fst d]"
      by simp_all
    from Cons.IH[OF 2 ok1] show ?thesis
      by (rule card_Un_mono[rotated 2]) (auto simp: s1)
  qed
qed

lemma add_reserved_too_many:
  assumes "add_reserved E sb = Inl (PError too_many_attributes)" and "attrs_ok sb"
  shows "maxUserAttribute E < card (set (attrs sb) \<union> {Self, Type})"
proof (cases "maybeAddAttribute E sb Self emptyInterfaceType")
  case (Inl p)
  then have "maybeAddAttribute E sb Self emptyInterfaceType = Inl (PError too_many_attributes)"
    using assms(1) by (simp add: add_reserved_def)
  from maybeAddAttribute_too_many[OF this assms(2)] show ?thesis
    by (rule card_Un_mono[rotated 2]) auto
next
  case (Inr r)
  obtain o1 sb1 where r: "r = (o1, sb1)" by (cases r)
  note 1 = Inr[unfolded r]
  have a1: "attrToOrdinal sb1 Self = Some o1" using maybeAddAttribute_ok(3)[OF assms(2) 1] .
  then have m1: "mustGetOrdinal sb1 Self = Inr o1"
    by (simp add: mustGetOrdinal_def getOrdinal_def)
  from attr_step_set[OF maybeAddAttribute_step(1)[OF 1] assms(2)]
  have ok1: "attrs_ok (sb1\<lparr>selfOrdinal := o1\<rparr>)"
    and s1: "set (attrs sb1) = set (attrs sb) \<union> set [Self]"
    by (simp_all add: attrs_ok_ordinal_update)
  show ?thesis
  proof (cases "maybeAddAttribute E (sb1\<lparr>selfOrdinal := o1\<rparr>) Type reflectTypeType")
    case (Inl p)
    then have "maybeAddAttribute E (sb1\<lparr>selfOrdinal := o1\<rparr>) Type reflectTypeType
                 = Inl (PError too_many_attributes)"
      using assms(1) 1 m1 by (simp add: add_reserved_def)
    from maybeAddAttribute_too_many[OF this ok1] show ?thesis
      by (rule card_Un_mono[rotated 2]) (auto simp: s1)
  next
    case (Inr r2)
    obtain o2 sb2 where r2: "r2 = (o2, sb2)" by (cases r2)
    have "attrToOrdinal sb2 Type = Some o2"
      using maybeAddAttribute_ok(3)[OF ok1 Inr[unfolded r2]] .
    then have "mustGetOrdinal sb2 Type = Inr o2"
      by (simp add: mustGetOrdinal_def getOrdinal_def)
    then show ?thesis using assms(1) 1 m1 Inr r2 by (simp add: add_reserved_def)
  qed
qed

lemma buildSchema_too_many:
  assumes "buildSchema E n m = Inl (PError too_many_attributes)"
  shows "maxUserAttribute E < card (set (registrations m))"
proof -
  let ?A = "map fst (attrTypes' m)"
  let ?B = "concat (map (\<lambda>tm. registrations_of (snd tm)) (entityMappings m))"
  have regs: "set (registrations m) = set ?A \<union> set ?B \<union> {Self, Type}"
    by (auto simp: registrations_def caller_registrations_def)
  have ok0: "attrs_ok (new_Schema n)" by (rule attrs_ok_new)
  have a0: "attrs (new_Schema n) = []" by (simp add: new_Schema_def)
  show ?thesis
  proof (cases "add_attrTypes E (attrTypes' m) (new_Schema n)")
    case (Inl p)
    then have "add_attrTypes E (attrTypes' m) (new_Schema n) = Inl (PError too_many_attributes)"
      using assms by (simp add: buildSchema_def)
    from add_attrTypes_too_many[OF this ok0] show ?thesis
      by (rule card_Un_mono[rotated 2]) (auto simp: regs a0)
  next
    case (Inr sb1)
    from attr_step_set[OF conjunct1[OF add_attrTypes_step[OF Inr]] ok0]
    have ok1: "attrs_ok sb1" and s1: "set (attrs sb1) = set ?A" by (simp_all add: a0)
    have e1: "ents_ok sb1"
      using ents_ok_same_entities[OF conjunct2[OF add_attrTypes_step[OF Inr]] ents_ok_new] .
    show ?thesis
    proof (cases "add_entityMappings E (entityMappings m) sb1")
      case (Inl p)
      then have "add_entityMappings E (entityMappings m) sb1 = Inl (PError too_many_attributes)"
        using assms \<open>add_attrTypes E (attrTypes' m) (new_Schema n) = Inr sb1\<close>
        by (simp add: buildSchema_def)
      from add_entityMappings_too_many[OF this ok1] show ?thesis
        by (rule card_Un_mono[rotated 2]) (auto simp: regs s1)
    next
      case (Inr sb2)
      note 2 = Inr
      from attr_step_set[OF add_entityMappings_step[OF 2] ok1]
      have ok2: "attrs_ok sb2" and s2: "set (attrs sb2) = set ?A \<union> set ?B" by (simp_all add: s1)
      have e2: "ents_ok sb2" using add_entityMappings_ents_ok[OF 2 e1] .
      show ?thesis
      proof (cases "add_reserved E sb2")
        case (Inl p)
        then have "add_reserved E sb2 = Inl (PError too_many_attributes)"
          using assms \<open>add_attrTypes E (attrTypes' m) (new_Schema n) = Inr sb1\<close> 2
          by (simp add: buildSchema_def)
        from add_reserved_too_many[OF this ok2] show ?thesis
          by (simp add: regs s2)
      next
        case (Inr sb3)
        have "ents_ok sb3" using add_reserved_step(2)[OF Inr e2] .
        from sort_Sort_ok[OF this, of E] obtain sc where "sort_Sort E sb3 = Inr sc" by blast
        then show ?thesis
          using assms \<open>add_attrTypes E (attrTypes' m) (new_Schema n) = Inr sb1\<close> 2 Inr
          by (simp add: buildSchema_def)
      qed
    qed
  qed
qed

lemma add_attrTypes_fresh:
  "attrs_ok sb \<Longrightarrow> distinct (map fst decls) \<Longrightarrow> fst ` set decls \<inter> set (attrs sb) = {} \<Longrightarrow>
   length (attrs sb) \<le> maxUserAttribute E \<Longrightarrow>
     (length (attrs sb) + length decls \<le> maxUserAttribute E \<longrightarrow>
        (\<exists>sb'. add_attrTypes E decls sb = Inr sb')) \<and>
     (maxUserAttribute E < length (attrs sb) + length decls \<longrightarrow>
        add_attrTypes E decls sb = Inl (PError too_many_attributes))"
proof (induction decls arbitrary: sb)
  case Nil
  then show ?case by simp
next
  case (Cons d decls)
  have na: "fst d \<notin> set (attrs sb)" using Cons.prems(3) by auto
  then have n: "attrToOrdinal sb (fst d) = None" using attrs_ok_None[OF Cons.prems(1)] by simp
  show ?case
  proof (cases "maxUserAttribute E \<le> length (attrs sb)")
    case True
    then show ?thesis using n by (simp add: maybeAddAttribute_new)
  next
    case False
    define sb1 where "sb1 = sb\<lparr>attrs := attrs sb @ [fst d], attrTypes := attrTypes sb @ [snd d],
                   attrToOrdinal := (attrToOrdinal sb)(fst d \<mapsto> length (attrs sb))\<rparr>"
    have 1: "maybeAddAttribute E sb (fst d) (snd d) = Inr (length (attrs sb), sb1)"
      using False n by (simp add: maybeAddAttribute_new sb1_def)
    have ok1: "attrs_ok sb1" using maybeAddAttribute_ok(1)[OF Cons.prems(1) 1] .
    have a1: "attrs sb1 = attrs sb @ [fst d]" by (simp add: sb1_def)
    have d1: "distinct (map fst decls)" and f1: "fst ` set decls \<inter> set (attrs sb1) = {}"
      using Cons.prems(2,3) by (auto simp: a1)
    have l1: "length (attrs sb1) \<le> maxUserAttribute E" using False by (simp add: a1)
    from Cons.IH[OF ok1 d1 f1 l1] show ?thesis using 1 by (simp add: a1)
  qed
qed

lemma add_reserved_fresh:
  assumes ok: "attrs_ok sb" and ns: "Self \<notin> set (attrs sb)" and nt: "Type \<notin> set (attrs sb)"
  shows "(length (attrs sb) + 2 \<le> maxUserAttribute E \<longrightarrow> (\<exists>sb'. add_reserved E sb = Inr sb')) \<and>
         (maxUserAttribute E < length (attrs sb) + 2 \<longrightarrow>
            add_reserved E sb = Inl (PError too_many_attributes))"
proof (cases "maxUserAttribute E \<le> length (attrs sb)")
  case True
  have "attrToOrdinal sb Self = None" using attrs_ok_None[OF ok] ns by simp
  then show ?thesis using True by (simp add: add_reserved_def maybeAddAttribute_new)
next
  case False
  define sb1 where "sb1 = sb\<lparr>attrs := attrs sb @ [Self], attrTypes := attrTypes sb @ [emptyInterfaceType],
                 attrToOrdinal := (attrToOrdinal sb)(Self \<mapsto> length (attrs sb))\<rparr>"
  have n: "attrToOrdinal sb Self = None" using attrs_ok_None[OF ok] ns by simp
  have 1: "maybeAddAttribute E sb Self emptyInterfaceType = Inr (length (attrs sb), sb1)"
    using False n by (simp add: maybeAddAttribute_new sb1_def)
  have m1: "mustGetOrdinal sb1 Self = Inr (length (attrs sb))"
    by (simp add: mustGetOrdinal_def getOrdinal_def sb1_def)
  let ?sb1 = "sb1\<lparr>selfOrdinal := length (attrs sb)\<rparr>"
  have ok1: "attrs_ok ?sb1"
    using maybeAddAttribute_ok(1)[OF ok 1] by (simp add: attrs_ok_ordinal_update)
  have a1: "attrs ?sb1 = attrs sb @ [Self]" by (simp add: sb1_def)
  have n2: "attrToOrdinal ?sb1 Type = None" using attrs_ok_None[OF ok1] nt by (simp add: a1)
  show ?thesis
  proof (cases "maxUserAttribute E \<le> Suc (length (attrs sb))")
    case True
    then show ?thesis using 1 m1 n2 a1 False
      by (simp add: add_reserved_def maybeAddAttribute_new)
  next
    case F2: False
    have 2: "\<exists>sb2. maybeAddAttribute E ?sb1 Type reflectTypeType = Inr (Suc (length (attrs sb)), sb2)
               \<and> attrToOrdinal sb2 Type = Some (Suc (length (attrs sb)))"
      using F2 n2 a1 by (simp add: maybeAddAttribute_new)
    then obtain sb2 where
      2: "maybeAddAttribute E ?sb1 Type reflectTypeType = Inr (Suc (length (attrs sb)), sb2)"
      and a2: "attrToOrdinal sb2 Type = Some (Suc (length (attrs sb)))" by blast
    have m2: "mustGetOrdinal sb2 Type = Inr (Suc (length (attrs sb)))"
      using a2 by (simp add: mustGetOrdinal_def getOrdinal_def)
    show ?thesis using 1 m1 2 m2 F2 by (simp add: add_reserved_def)
  qed
qed

lemma buildSchema_declarations:
  assumes d: "distinct (map fst decls)" and ns: "Self \<notin> fst ` set decls"
    and nt: "Type \<notin> fst ` set decls"
  shows "(length decls + 2 \<le> maxUserAttribute E \<longrightarrow>
            (\<exists>sc. buildSchema E n \<lparr>attrTypes' = decls, entityMappings = []\<rparr> = Inr sc)) \<and>
         (maxUserAttribute E < length decls + 2 \<longrightarrow>
            buildSchema E n \<lparr>attrTypes' = decls, entityMappings = []\<rparr>
              = Inl (PError too_many_attributes))"
proof -
  have ok0: "attrs_ok (new_Schema n)" by (rule attrs_ok_new)
  have a0: "attrs (new_Schema n) = []" by (simp add: new_Schema_def)
  have f0: "fst ` set decls \<inter> set (attrs (new_Schema n)) = {}" by (simp add: a0)
  have l0: "length (attrs (new_Schema n)) \<le> maxUserAttribute E" by (simp add: a0)
  note A = add_attrTypes_fresh[OF ok0 d f0 l0, unfolded a0, simplified]
  show ?thesis
  proof (cases "length decls \<le> maxUserAttribute E")
    case False
    then show ?thesis using A by (simp add: buildSchema_def)
  next
    case True
    then obtain sb1 where 1: "add_attrTypes E decls (new_Schema n) = Inr sb1" using A by blast
    from attr_step_set[OF conjunct1[OF add_attrTypes_step[OF 1]] ok0]
    have ok1: "attrs_ok sb1" and s1: "set (attrs sb1) = fst ` set decls" by (simp_all add: a0)
    have "distinct (attrs sb1)" using ok1 by (simp add: attrs_ok_def)
    then have l1: "length (attrs sb1) = length decls"
      using distinct_card[of "attrs sb1"] distinct_card[OF d] s1 by simp
    have e1: "ents_ok sb1"
      using ents_ok_same_entities[OF conjunct2[OF add_attrTypes_step[OF 1]] ents_ok_new] .
    have ns1: "Self \<notin> set (attrs sb1)" and nt1: "Type \<notin> set (attrs sb1)"
      using ns nt s1 by simp_all
    note R = add_reserved_fresh[OF ok1 ns1 nt1, of E, unfolded l1]
    show ?thesis
    proof (cases "length decls + 2 \<le> maxUserAttribute E")
      case False
      then show ?thesis using R 1 by (simp add: buildSchema_def)
    next
      case True
      then obtain sb3 where 3: "add_reserved E sb1 = Inr sb3" using R by blast
      have "ents_ok sb3" using add_reserved_step(2)[OF 3 e1] .
      from sort_Sort_ok[OF this, of E] obtain sc where "sort_Sort E sb3 = Inr sc" by blast
      then show ?thesis using True 1 3 by (simp add: buildSchema_def)
    qed
  qed
qed

section \<open>Types of attributes and selectors\<close>

lemma Implements_self: "Implements E (InterfaceOf n ms) (InterfaceOf n ms) = Inr True"
  by (simp add: list_all_iff)

lemma checkType_eq:
  "checkType E typ prev =
     (if typ = prev \<or> (Kind prev = reflect_Interface \<and> Implements E typ prev = Inr True)
      then Inr None
      else Inr (Some (if Kind prev = reflect_Interface then does_not_implement typ prev
                      else is_not typ prev)))"
proof (cases "Kind prev = reflect_Interface")
  case True
  then obtain n ms where p: "prev = InterfaceOf n ms" using Kind_Interface by blast
  show ?thesis unfolding p by (auto simp: checkType_def list_all_iff)
next
  case False
  then show ?thesis by (simp add: checkType_def)
qed

lemma NewSchema_redeclared:
  assumes "0 < maxUserAttribute E"
    and "\<not> (typ = prev \<or> (Kind prev = reflect_Interface \<and> Implements E typ prev = Inr True))"
  shows "NewSchema E n \<lparr>attrTypes' = [(a, prev), (a, typ)], entityMappings = []\<rparr> =
     (None, Some (failed_to_construct_schema (type_mismatch_for
        (if Kind prev = reflect_Interface then does_not_implement typ prev
         else is_not typ prev) a)))"
  using assms
  by (simp add: NewSchema_def buildSchema_def new_Schema_def maybeAddAttribute_def checkType_eq)

lemma attrs_ok_example_table: "attrs_ok example_table"
  by (auto simp: attrs_ok_def example_table_def less_Suc_eq)

lemma Split_no_sep: "sep \<notin> set xs \<Longrightarrow> Split xs sep = [xs]"
  by (induction xs) auto


lemma selector_names_PError:
  "selector_names E sp sel names off cur = Inl (PError e) \<Longrightarrow> e = is_not_a_field sp sel"
proof (induction names arbitrary: off cur)
  case Nil
  then show ?case by simp
next
  case (Cons n names)
  then show ?case
    by (cases cur) (auto split: option.splits prod.splits)
qed

lemma getOffsetAndTypeFromSelector_PError:
  "getOffsetAndTypeFromSelector E t sel = Inl (PError e) \<Longrightarrow> e = is_not_a_field t sel"
  using selector_names_PError
  by (cases t) (auto simp: getOffsetAndTypeFromSelector_def Let_def)


section \<open>Field flags and accessors\<close>

lemmas flag_defs =
  isPtr_def isScalar_def isStruct_def isInt_def isUint_def isIntLike_def isString_def
  intField_def uintField_def stringField_def structField_def pointerField_def

lemma flags_int:
  "\<not> isPtr intField" "isScalar intField" "\<not> isStruct intField" "isInt intField"
  "\<not> isUint intField" "\<not> isString intField"
  by (simp_all add: flag_defs)

lemma flags_uint:
  "\<not> isPtr uintField" "isScalar uintField" "\<not> isStruct uintField" "\<not> isInt uintField"
  "isUint uintField" "\<not> isString uintField"
  by (simp_all add: flag_defs)

lemma flags_string:
  "\<not> isPtr stringField" "isScalar stringField" "\<not> isStruct stringField" "\<not> isInt stringField"
  "\<not> isUint stringField" "isString stringField"
  by (simp_all add: flag_defs)

lemma flags_ptr_int:
  "isPtr (pointerField OR intField)" "isScalar (pointerField OR intField)"
  "\<not> isStruct (pointerField OR intField)" "isInt (pointerField OR intField)"
  "\<not> isUint (pointerField OR intField)" "\<not> isString (pointerField OR intField)"
  by (simp_all add: flag_defs)

lemma flags_ptr_uint:
  "isPtr (pointerField OR uintField)" "isScalar (pointerField OR uintField)"
  "\<not> isStruct (pointerField OR uintField)" "\<not> isInt (pointerField OR uintField)"
  "isUint (pointerField OR uintField)" "\<not> isString (pointerField OR uintField)"
  by (simp_all add: flag_defs)

lemma flags_ptr_string:
  "isPtr (pointerField OR stringField)" "isScalar (pointerField OR stringField)"
  "\<not> isStruct (pointerField OR stringField)" "\<not> isInt (pointerField OR stringField)"
  "\<not> isUint (pointerField OR stringField)" "isString (pointerField OR stringField)"
  by (simp_all add: flag_defs)

lemma flags_ptr_struct:
  "isPtr (pointerField OR structField)" "\<not> isScalar (pointerField OR structField)"
  "isStruct (pointerField OR structField)" "\<not> isInt (pointerField OR structField)"
  "\<not> isUint (pointerField OR structField)" "\<not> isString (pointerField OR structField)"
  by (simp_all add: flag_defs)

lemma isPtr_0: "\<not> isPtr 0"
  by (simp add: isPtr_def)

lemma int_kind_facts:
  assumes "isIntKind (Kind t)"
  shows "Kind t \<noteq> reflect_Ptr" "Kind t \<noteq> reflect_String" "Kind t \<noteq> reflect_Struct"
    "\<not> isUintKind (Kind t)" "Kind t \<noteq> reflect_Interface"
  using assms by (auto simp: isIntKind_def isUintKind_def)

lemma uint_kind_facts:
  assumes "isUintKind (Kind t)"
  shows "Kind t \<noteq> reflect_Ptr" "Kind t \<noteq> reflect_String" "Kind t \<noteq> reflect_Struct"
    "\<not> isIntKind (Kind t)" "Kind t \<noteq> reflect_Interface"
  using assms by (auto simp: isIntKind_def isUintKind_def)

lemma string_kind_facts:
  assumes "Kind t = reflect_String"
  shows "\<not> isIntKind (Kind t)" "\<not> isUintKind (Kind t)"
  using assms by (auto simp: isIntKind_def isUintKind_def)

lemma makeFieldFlags_plain:
  "Kind t = reflect_String \<Longrightarrow> makeFieldFlags t = Inr (stringField, True)"
  "isIntKind (Kind t) \<Longrightarrow> makeFieldFlags t = Inr (intField, True)"
  "isUintKind (Kind t) \<Longrightarrow> makeFieldFlags t = Inr (uintField, True)"
  by (simp_all add: makeFieldFlags_def Let_def int_kind_facts uint_kind_facts isPtr_0)

lemma makeFieldFlags_ptr:
  "Kind t = reflect_String \<Longrightarrow> makeFieldFlags (PtrTo t) = Inr (pointerField OR stringField, True)"
  "isIntKind (Kind t) \<Longrightarrow> makeFieldFlags (PtrTo t) = Inr (pointerField OR intField, True)"
  "isUintKind (Kind t) \<Longrightarrow> makeFieldFlags (PtrTo t) = Inr (pointerField OR uintField, True)"
  "Kind t = reflect_Struct \<Longrightarrow> makeFieldFlags (PtrTo t) = Inr (pointerField OR structField, True)"
  by (simp_all add: makeFieldFlags_def Let_def int_kind_facts uint_kind_facts
      isPtr_def pointerField_def)

lemma addTypeAttrMapping_field:
  assumes "addTypeAttrMapping E sb a t sel = Inr (f, sb')"
    and "getOffsetAndTypeFromSelector E t sel = Inr (off, cur)"
    and "makeFieldFlags cur = Inr (flags, ok)"
  shows "fieldFlags f = flags" "value' f = value_block flags cur off"
    "inline f = inline_block flags cur off"
    "comparableValue f = comparableValue_block flags cur (field_typ f) off"
    "path f = sel"
    "field_typ f = (if isPtr flags \<and> isScalar flags then (case cur of PtrTo e \<Rightarrow> e | _ \<Rightarrow> cur)
                    else cur)"
    "maybeAddAttribute E sb a (field_typ f) = Inr (attr f, sb')"
  using assms
  by (cases cur; auto simp: addTypeAttrMapping_def split: if_splits sum.splits)+

lemmas field_simps' =
  addTypeAttrMapping_def getOffsetAndTypeFromSelector_def makeFieldFlags_def
  maybeAddAttribute_def new_Schema_def Let_def

lemma scalar_kind_cases:
  assumes "scalar_kind (Kind t)"
  obtains "Kind t = reflect_String" | "isIntKind (Kind t)" | "isUintKind (Kind t)"
  using assms by (auto simp: scalar_kind_def)

lemma Kind_getComparableType: "Kind (getComparableType t) = Kind t"
  by (cases t) auto

lemma comparableValue_plain:
  assumes "addTypeAttrMapping E sb a t sel = Inr (f, sb')"
    and "getOffsetAndTypeFromSelector E t sel = Inr (off, cur)"
    and "scalar_kind (Kind cur)"
  shows "comparableValue f h u = Some (I_ptr (PtrTo (getComparableType cur)) (u + off))"
  using assms(3)
proof (cases rule: scalar_kind_cases)
  case 1
  note F = addTypeAttrMapping_field[OF assms(1,2) makeFieldFlags_plain(1)[OF 1]]
  show ?thesis
    by (simp add: F(4) F(6) comparableValue_block_def flags_string Let_def
        makeValueGetter_def NewAt_def)
next
  case 2
  note F = addTypeAttrMapping_field[OF assms(1,2) makeFieldFlags_plain(2)[OF 2]]
  show ?thesis
    by (simp add: F(4) F(6) comparableValue_block_def flags_int Let_def
        makeValueGetter_def NewAt_def)
next
  case 3
  note F = addTypeAttrMapping_field[OF assms(1,2) makeFieldFlags_plain(3)[OF 3]]
  show ?thesis
    by (simp add: F(4) F(6) comparableValue_block_def flags_uint Let_def
        makeValueGetter_def NewAt_def)
qed

lemma comparableValue_optional:
  assumes "addTypeAttrMapping E sb a t sel = Inr (f, sb')"
    and "getOffsetAndTypeFromSelector E t sel = Inr (off, PtrTo T)"
    and "scalar_kind (Kind T)" and "u + off \<noteq> 0" and "h (u + off) = CPtr p"
  shows "comparableValue f h u =
           Some (if p = 0 then nil else I_ptr (PtrTo (getComparableType T)) p)"
  using assms(3)
proof (cases rule: scalar_kind_cases)
  case 1
  note F = addTypeAttrMapping_field[OF assms(1,2) makeFieldFlags_ptr(1)[OF 1]]
  show ?thesis using assms(4,5)
    by (simp add: F(4) F(6) comparableValue_block_def flags_ptr_string Let_def
        makeValueGetter_def NewAt_def getPtrValue_def)
next
  case 2
  note F = addTypeAttrMapping_field[OF assms(1,2) makeFieldFlags_ptr(2)[OF 2]]
  show ?thesis using assms(4,5)
    by (simp add: F(4) F(6) comparableValue_block_def flags_ptr_int Let_def
        makeValueGetter_def NewAt_def getPtrValue_def)
next
  case 3
  note F = addTypeAttrMapping_field[OF assms(1,2) makeFieldFlags_ptr(3)[OF 3]]
  show ?thesis using assms(4,5)
    by (simp add: F(4) F(6) comparableValue_block_def flags_ptr_uint Let_def
        makeValueGetter_def NewAt_def getPtrValue_def)
qed

lemma comparableValue_struct:
  assumes "addTypeAttrMapping E sb a t sel = Inr (f, sb')"
    and "getOffsetAndTypeFromSelector E t sel = Inr (off, PtrTo S)"
    and "Kind S = reflect_Struct" and "u + off \<noteq> 0" and "h (u + off) = CPtr p"
  shows "comparableValue f h u = Some (if p = 0 then nil else I_ptr (PtrTo S) p)"
proof -
  note F = addTypeAttrMapping_field[OF assms(1,2) makeFieldFlags_ptr(4)[OF assms(3)]]
  show ?thesis using assms(4,5)
    by (simp add: F(4) comparableValue_block_def flags_ptr_struct Let_def
        makeValueGetter_def NewAt_def getPtrValue_def)
qed

lemma pointee_scalar:
  assumes "scalar_kind (Kind T)" and "p \<noteq> 0"
  shows "pointee h (I_ptr (PtrTo (getComparableType T)) p) =
           (case h p of
              CInt i \<Rightarrow> if isIntKind (Kind T) then Some (I_int (getComparableType T) i) else None
            | CUint n \<Rightarrow> if isUintKind (Kind T) then Some (I_uint (getComparableType T) n) else None
            | CString s \<Rightarrow> if Kind T = reflect_String
                             then Some (I_string (getComparableType T) s) else None
            | _ \<Rightarrow> None)"
  using assms(1)
proof (cases rule: scalar_kind_cases)
  case 1
  then show ?thesis using assms(2)
    by (simp add: pointee_def Kind_getComparableType isIntKind_def isUintKind_def
        split: cell.splits)
next
  case 2
  then show ?thesis using assms(2)
    by (simp add: pointee_def Kind_getComparableType int_kind_facts split: cell.splits)
next
  case 3
  then show ?thesis using assms(2)
    by (simp add: pointee_def Kind_getComparableType uint_kind_facts split: cell.splits)
qed

lemma Interface_Stored_cong: "h a = h b \<Longrightarrow> Interface h (Stored t a) = Interface h (Stored t b)"
  by simp

lemma Interface_Stored_cong2: "h a = h' b \<Longrightarrow> Interface h (Stored t a) = Interface h' (Stored t b)"
  by simp

section \<open>One attribute on a plain and on an optional field\<close>

lemma getOffsetAndTypeFromSelector_field:
  assumes "map_of fs F = Some (off, cur)" and "CHR ''.'' \<notin> set F"
  shows "getOffsetAndTypeFromSelector E (PtrTo (StructOf n fs)) F = Inr (off, cur)"
  using assms by (simp add: getOffsetAndTypeFromSelector_def Split_no_sep)

lemma addTypeAttrMapping_scalar:
  assumes g: "getOffsetAndTypeFromSelector E t sel = Inr (off, cur)"
    and c: "cur = T \<or> cur = PtrTo T" and k: "scalar_kind (Kind T)"
    and m: "maybeAddAttribute E sb a T = Inr (ord, sb1)"
  shows "\<exists>f. addTypeAttrMapping E sb a t sel = Inr (f, sb1) \<and> field_typ f = T \<and> attr f = ord"
  using k
proof (cases rule: scalar_kind_cases)
  case 1
  show ?thesis using c
  proof
    assume "cur = T"
    then show ?thesis using g m makeFieldFlags_plain(1)[OF 1]
      by (simp add: addTypeAttrMapping_def flags_string)
  next
    assume "cur = PtrTo T"
    then show ?thesis using g m makeFieldFlags_ptr(1)[OF 1]
      by (simp add: addTypeAttrMapping_def flags_ptr_string)
  qed
next
  case 2
  show ?thesis using c
  proof
    assume "cur = T"
    then show ?thesis using g m makeFieldFlags_plain(2)[OF 2]
      by (simp add: addTypeAttrMapping_def flags_int)
  next
    assume "cur = PtrTo T"
    then show ?thesis using g m makeFieldFlags_ptr(2)[OF 2]
      by (simp add: addTypeAttrMapping_def flags_ptr_int)
  qed
next
  case 3
  show ?thesis using c
  proof
    assume "cur = T"
    then show ?thesis using g m makeFieldFlags_plain(3)[OF 3]
      by (simp add: addTypeAttrMapping_def flags_uint)
  next
    assume "cur = PtrTo T"
    then show ?thesis using g m makeFieldFlags_ptr(3)[OF 3]
      by (simp add: addTypeAttrMapping_def flags_ptr_uint)
  qed
qed

lemma maybeAddTypeMapping_single:
  assumes f: "map_of fs F = Some (off, cur)" and d: "CHR ''.'' \<notin> set F"
    and c: "cur = T \<or> cur = PtrTo T" and k: "scalar_kind (Kind T)"
    and m: "maybeAddAttribute E sb a T = Inr (ord, sb1)"
  shows "\<exists>sb'. maybeAddTypeMapping E sb (PtrTo (StructOf n fs)) [(a, [F])] = Inr sb' \<and>
           attrs sb' = attrs sb1 \<and> attrTypes sb' = attrTypes sb1 \<and>
           attrToOrdinal sb' = attrToOrdinal sb1 \<and> (ents_ok sb \<longrightarrow> ents_ok sb')"
proof -
  note g = getOffsetAndTypeFromSelector_field[OF f d, of E n]
  from addTypeAttrMapping_scalar[OF g c k m] obtain fi where
    a: "addTypeAttrMapping E sb a (PtrTo (StructOf n fs)) F = Inr (fi, sb1)" by blast
  have "\<exists>sb'. maybeAddTypeMapping E sb (PtrTo (StructOf n fs)) [(a, [F])] = Inr sb' \<and>
           attrs sb' = attrs sb1 \<and> attrTypes sb' = attrTypes sb1 \<and>
           attrToOrdinal sb' = attrToOrdinal sb1"
    by (simp add: maybeAddTypeMapping_def isStructPointer_def a Let_def)
  then obtain sb' where
    r: "maybeAddTypeMapping E sb (PtrTo (StructOf n fs)) [(a, [F])] = Inr sb'"
    and e: "attrs sb' = attrs sb1" "attrTypes sb' = attrTypes sb1"
      "attrToOrdinal sb' = attrToOrdinal sb1" by blast
  show ?thesis using r e maybeAddTypeMapping_ents_ok[OF r] by blast
qed

lemma add_reserved_appends:
  assumes ok: "attrs_ok sb" and ns: "Self \<notin> set (attrs sb)" and nt: "Type \<notin> set (attrs sb)"
    and r: "add_reserved E sb = Inr sb'"
  shows "attrs sb' = attrs sb @ [Self, Type]"
    and "attrTypes sb' = attrTypes sb @ [emptyInterfaceType, reflectTypeType]"
proof -
  from add_reserved_Inr[OF r] obtain o1 sb1 o2 sb2 where
    1: "maybeAddAttribute E sb Self emptyInterfaceType = Inr (o1, sb1)" and
    2: "maybeAddAttribute E (sb1\<lparr>selfOrdinal := o1\<rparr>) Type reflectTypeType = Inr (o2, sb2)" and
    3: "sb' = sb2\<lparr>typeOrdinal := o2\<rparr>"
    by blast
  have n1: "attrToOrdinal sb Self = None" using attrs_ok_None[OF ok] ns by simp
  have s1: "attrs sb1 = attrs sb @ [Self]" "attrTypes sb1 = attrTypes sb @ [emptyInterfaceType]"
    using 1 n1 by (auto simp: maybeAddAttribute_new split: if_splits)
  have ok1: "attrs_ok (sb1\<lparr>selfOrdinal := o1\<rparr>)"
    using maybeAddAttribute_ok(1)[OF ok 1] by (simp add: attrs_ok_ordinal_update)
  have n2: "attrToOrdinal (sb1\<lparr>selfOrdinal := o1\<rparr>) Type = None"
    using attrs_ok_None[OF ok1] nt s1 by simp
  have s2: "attrs sb2 = attrs sb1 @ [Type]" "attrTypes sb2 = attrTypes sb1 @ [reflectTypeType]"
    using 2 n2 by (auto simp: maybeAddAttribute_new split: if_splits)
  show "attrs sb' = attrs sb @ [Self, Type]" using s1 s2 3 by simp
  show "attrTypes sb' = attrTypes sb @ [emptyInterfaceType, reflectTypeType]"
    using s1 s2 3 by simp
qed

lemma buildSchema_two_fields:
  assumes k: "scalar_kind (Kind T)"
    and f1: "map_of fs1 F = Some (o1, c1)" and d1: "CHR ''.'' \<notin> set F"
    and c1: "c1 = T \<or> c1 = PtrTo T"
    and f2: "map_of fs2 G = Some (o2, c2)" and d2: "CHR ''.'' \<notin> set G"
    and c2: "c2 = T \<or> c2 = PtrTo T"
    and mx: "3 \<le> maxUserAttribute E"
  shows "\<exists>sc. buildSchema E n
            \<lparr>attrTypes' = [],
             entityMappings = [(PtrTo (StructOf n1 fs1), [(User x, [F])]),
                               (PtrTo (StructOf n2 fs2), [(User x, [G])])]\<rparr> = Inr sc \<and>
          attrs sc = [User x, Self, Type] \<and>
          attrTypes sc = [T, emptyInterfaceType, reflectTypeType]"
proof -
  let ?sb0 = "new_Schema n"
  define sb1 where "sb1 = ?sb0\<lparr>attrs := [User x], attrTypes := [T],
                                 attrToOrdinal := [User x \<mapsto> 0]\<rparr>"
  have m1: "maybeAddAttribute E ?sb0 (User x) T = Inr (0, sb1)"
    using mx by (simp add: maybeAddAttribute_def new_Schema_def sb1_def)
  from maybeAddTypeMapping_single[OF f1 d1 c1 k m1, of n1] obtain sbA where
    A: "maybeAddTypeMapping E ?sb0 (PtrTo (StructOf n1 fs1)) [(User x, [F])] = Inr sbA"
    and eA: "attrs sbA = attrs sb1" "attrTypes sbA = attrTypes sb1"
      "attrToOrdinal sbA = attrToOrdinal sb1" "ents_ok ?sb0 \<longrightarrow> ents_ok sbA" by blast
  have okA: "attrs_ok sbA"
    using eA by (simp add: attrs_ok_def sb1_def)
  have entA: "ents_ok sbA" using eA(4) ents_ok_new by blast
  have m2: "maybeAddAttribute E sbA (User x) T = Inr (0, sbA)"
    using eA by (simp add: maybeAddAttribute_def sb1_def checkType_eq)
  from maybeAddTypeMapping_single[OF f2 d2 c2 k m2, of n2] obtain sbB where
    B: "maybeAddTypeMapping E sbA (PtrTo (StructOf n2 fs2)) [(User x, [G])] = Inr sbB"
    and eB: "attrs sbB = attrs sbA" "attrTypes sbB = attrTypes sbA"
      "attrToOrdinal sbB = attrToOrdinal sbA" "ents_ok sbA \<longrightarrow> ents_ok sbB" by blast
  have okB: "attrs_ok sbB" using okA eB by (simp add: attrs_ok_def)
  have entB: "ents_ok sbB" using eB(4) entA by blast
  have aB: "attrs sbB = [User x]" "attrTypes sbB = [T]" using eA eB by (simp_all add: sb1_def)
  have nB: "Self \<notin> set (attrs sbB)" "Type \<notin> set (attrs sbB)" by (simp_all add: aB)
  from add_reserved_fresh[OF okB nB, of E] mx obtain sb3 where
    3: "add_reserved E sbB = Inr sb3" by (auto simp: aB)
  note a3 = add_reserved_appends[OF okB nB 3]
  have ent3: "ents_ok sb3" using add_reserved_step(2)[OF 3 entB] .
  from sort_Sort_ok[OF ent3, of E] obtain sc where
    4: "sort_Sort E sb3 = Inr sc" and sa: "same_attrs sb3 sc" by blast
  have "buildSchema E n
            \<lparr>attrTypes' = [],
             entityMappings = [(PtrTo (StructOf n1 fs1), [(User x, [F])]),
                               (PtrTo (StructOf n2 fs2), [(User x, [G])])]\<rparr> = Inr sc"
    using A B 3 4 by (simp add: buildSchema_def)
  moreover have "attrs sc = [User x, Self, Type]"
    "attrTypes sc = [T, emptyInterfaceType, reflectTypeType]"
    using sa a3 aB by (simp_all add: same_attrs_def)
  ultimately show ?thesis by blast
qed

lemmas entity_simps =
  maybeAddTypeMapping_def isStructPointer_def addTypeAttrMapping_def
  getOffsetAndTypeFromSelector_def makeFieldFlags_def isIntKind_def isUintKind_def
  flag_defs Less_def Swap_def set_typID_def deref_def

section \<open>The ranks when every record type is registered once\<close>

lemma sift_length: "length (sift lt xs j) = length xs"
  by (induction lt xs j rule: sift.induct) auto

lemma sift_set: "j < length xs \<Longrightarrow> set (sift lt xs j) = set xs"
proof (induction lt xs j rule: sift.induct)
  case (1 lt xs)
  then show ?case by simp
next
  case (2 lt xs j)
  then show ?case by (auto simp: set_swap)
qed

lemma sift_distinct: "j < length xs \<Longrightarrow> distinct xs \<Longrightarrow> distinct (sift lt xs j)"
proof (induction lt xs j rule: sift.induct)
  case (1 lt xs)
  then show ?case by simp
next
  case (2 lt xs j)
  then show ?case by (auto simp: distinct_swap)
qed

lemma sift_sorted:
  assumes "strict_linear_on (set xs) lt" and "distinct xs" and "i < length xs" and "j \<le> i"
    and "\<forall>a b. a < b \<and> b \<le> i \<and> a \<noteq> j \<and> b \<noteq> j \<longrightarrow> lt (xs ! a) (xs ! b)"
    and "\<forall>b. j < b \<and> b \<le> i \<longrightarrow> lt (xs ! j) (xs ! b)"
  shows "sorted_to lt (sift lt xs j) (Suc i)"
  using assms
proof (induction j arbitrary: xs)
  case 0
  show ?case unfolding sorted_to_def
  proof (intro allI impI)
    fix a b assume ab: "a < b \<and> b < Suc i"
    show "lt (sift lt xs 0 ! a) (sift lt xs 0 ! b)"
    proof (cases "a = 0")
      case True
      then show ?thesis using ab "0.prems"(6) by simp
    next
      case False
      then show ?thesis using ab "0.prems"(5) by simp
    qed
  qed
next
  case (Suc j)
  note lin = Suc.prems(1) and d = Suc.prems(2) and i = Suc.prems(3) and ji = Suc.prems(4)
    and inv1 = Suc.prems(5) and inv2 = Suc.prems(6)
  have mem: "\<And>k. k \<le> i \<Longrightarrow> xs ! k \<in> set xs" using i by simp
  have tr: "\<And>x y z. x \<in> set xs \<Longrightarrow> y \<in> set xs \<Longrightarrow> z \<in> set xs \<Longrightarrow> lt x y \<Longrightarrow> lt y z \<Longrightarrow> lt x z"
    using lin unfolding strict_linear_on_def by blast
  have tot: "\<And>x y. x \<in> set xs \<Longrightarrow> y \<in> set xs \<Longrightarrow> x \<noteq> y \<Longrightarrow> \<not> lt y x \<Longrightarrow> lt x y"
    using lin unfolding strict_linear_on_def by blast
  show ?case
  proof (cases "lt (xs ! Suc j) (xs ! j)")
    case False
    have ne: "xs ! j \<noteq> xs ! Suc j"
      using d i ji by (simp add: nth_eq_iff_index_eq)
    have mj: "xs ! j \<in> set xs" "xs ! Suc j \<in> set xs" using mem[of j] mem[of "Suc j"] ji by simp_all
    have jl: "lt (xs ! j) (xs ! Suc j)"
      using tot[OF mj ne False] .
    have "sorted_to lt xs (Suc i)" unfolding sorted_to_def
    proof (intro allI impI)
      fix a b assume ab: "a < b \<and> b < Suc i"
      consider "a \<noteq> Suc j" "b \<noteq> Suc j" | "a = Suc j" | "b = Suc j" "a = j" | "b = Suc j" "a < j"
        using ab by (cases "a = Suc j"; cases "b = Suc j"; cases "a = j") auto
      then show "lt (xs ! a) (xs ! b)"
      proof cases
        case 1 then show ?thesis using inv1 ab by simp
      next
        case 2 then show ?thesis using inv2 ab by simp
      next
        case 3 then show ?thesis using jl by simp
      next
        case 4
        have "a < j \<and> j \<le> i \<and> a \<noteq> Suc j \<and> j \<noteq> Suc j" using 4 ji by simp
        then have aj: "lt (xs ! a) (xs ! j)" using inv1 by blast
        have "xs ! a \<in> set xs" using mem[of a] 4 ji by simp
        from tr[OF this mj aj jl] show ?thesis using 4 by simp
      qed
    qed
    then show ?thesis using False by simp
  next
    case True
    define ys where "ys = xs[Suc j := xs ! j, j := xs ! Suc j]"
    have jl: "j < length xs" "Suc j < length xs" using i ji by simp_all
    have sy: "set ys = set xs" unfolding ys_def using jl set_swap[of "Suc j" xs j] by simp
    have dy: "distinct ys" unfolding ys_def using jl d distinct_swap[of "Suc j" xs j] by simp
    have ly: "length ys = length xs" by (simp add: ys_def)
    have yj: "ys ! j = xs ! Suc j" and ysj: "ys ! Suc j = xs ! j"
      using jl by (simp_all add: ys_def)
    have yo: "\<And>k. k \<noteq> j \<Longrightarrow> k \<noteq> Suc j \<Longrightarrow> ys ! k = xs ! k" by (simp add: ys_def)
    have i1: "\<forall>a b. a < b \<and> b \<le> i \<and> a \<noteq> j \<and> b \<noteq> j \<longrightarrow> lt (ys ! a) (ys ! b)"
    proof (intro allI impI)
      fix a b assume ab: "a < b \<and> b \<le> i \<and> a \<noteq> j \<and> b \<noteq> j"
      consider "a \<noteq> Suc j" "b \<noteq> Suc j" | "a = Suc j" | "b = Suc j" "a < j"
        using ab by (cases "a = Suc j"; cases "b = Suc j") auto
      then show "lt (ys ! a) (ys ! b)"
      proof cases
        case 1 then show ?thesis using inv1 ab yo by simp
      next
        case 2
        then have "b \<noteq> Suc j" "b \<noteq> j" "j < b" using ab by simp_all
        then show ?thesis using inv1 ab 2 ysj yo by simp
      next
        case 3 then show ?thesis using inv1 ab ysj yo by simp
      qed
    qed
    have i2: "\<forall>b. j < b \<and> b \<le> i \<longrightarrow> lt (ys ! j) (ys ! b)"
    proof (intro allI impI)
      fix b assume b: "j < b \<and> b \<le> i"
      show "lt (ys ! j) (ys ! b)"
      proof (cases "b = Suc j")
        case True then show ?thesis using \<open>lt (xs ! Suc j) (xs ! j)\<close> yj ysj by simp
      next
        case False
        then have "Suc j < b" using b by simp
        then show ?thesis using inv2 b yj yo False by simp
      qed
    qed
    have "sorted_to lt (sift lt ys j) (Suc i)"
      using Suc.IH[of ys] lin dy i ji i1 i2 sy ly by simp
    then show ?thesis using True by (simp add: ys_def)
  qed
qed

lemma sift_all_sorted:
  assumes "strict_linear_on (set xs) lt" and "distinct xs" and "n \<le> length xs"
    and "sorted_to lt xs k" and "0 < k"
  shows "sorted_to lt (sift_all lt [k..<n] xs) (max k n) \<and>
         set (sift_all lt [k..<n] xs) = set xs \<and> distinct (sift_all lt [k..<n] xs) \<and>
         length (sift_all lt [k..<n] xs) = length xs"
  using assms
proof (induction "n - k" arbitrary: k xs)
  case 0
  then show ?case by (simp add: max_def)
next
  case (Suc d)
  then have kn: "k < n" by simp
  have kl: "k < length xs" using kn Suc.prems(3) by simp
  let ?ys = "sift lt xs k"
  have inv1: "\<forall>a b. a < b \<and> b \<le> k \<and> a \<noteq> k \<and> b \<noteq> k \<longrightarrow> lt (xs ! a) (xs ! b)"
    using Suc.prems(4) by (simp add: sorted_to_def)
  have inv2: "\<forall>b. k < b \<and> b \<le> k \<longrightarrow> lt (xs ! k) (xs ! b)" by auto
  have s: "sorted_to lt ?ys (Suc k)"
    using sift_sorted[OF Suc.prems(1,2) kl le_refl inv1 inv2] .
  have sy: "set ?ys = set xs" using sift_set[OF kl] .
  have dy: "distinct ?ys" using sift_distinct[OF kl Suc.prems(2)] .
  have ly: "length ?ys = length xs" by (rule sift_length)
  have dk: "d = n - Suc k" using Suc.hyps(2) by simp
  have l': "strict_linear_on (set ?ys) lt" using Suc.prems(1) sy by simp
  have n': "n \<le> length ?ys" using Suc.prems(3) ly by simp
  note IH = Suc.hyps(1)[OF dk l' dy n' s zero_less_Suc]
  have e: "sift_all lt [k..<n] xs = sift_all lt [Suc k..<n] ?ys"
    using kn by (simp add: upt_rec[of k n])
  have mx: "max (Suc k) n = max k n" using kn by simp
  have 1: "sorted_to lt (sift_all lt [k..<n] xs) (max k n)"
    using IH unfolding e mx by blast
  have 2: "set (sift_all lt [k..<n] xs) = set xs"
    using IH sy unfolding e by blast
  have 3: "distinct (sift_all lt [k..<n] xs)"
    using IH unfolding e by blast
  have 4: "length (sift_all lt [k..<n] xs) = length xs"
    using IH ly unfolding e by presburger
  show ?case by (intro conjI 1 2 3 4)
qed

lemma sorted_to_position:
  assumes lin: "strict_linear_on (set xs) lt" and d: "distinct xs"
    and s: "sorted_to lt xs (length xs)" and k: "k < length xs"
  shows "card {y \<in> set xs. lt y (xs ! k)} = k"
proof -
  have tr: "\<And>x y z. x \<in> set xs \<Longrightarrow> y \<in> set xs \<Longrightarrow> z \<in> set xs \<Longrightarrow> lt x y \<Longrightarrow> lt y z \<Longrightarrow> lt x z"
    using lin unfolding strict_linear_on_def by blast
  have irr: "\<And>x. x \<in> set xs \<Longrightarrow> \<not> lt x x"
    using lin unfolding strict_linear_on_def by blast
  have "{y \<in> set xs. lt y (xs ! k)} = set (take k xs)"
  proof (intro set_eqI iffI)
    fix y assume "y \<in> {y \<in> set xs. lt y (xs ! k)}"
    then obtain a where a: "a < length xs" "xs ! a = y" and ly: "lt y (xs ! k)"
      by (auto simp: in_set_conv_nth)
    have "a < k"
    proof (rule ccontr)
      assume "\<not> a < k"
      then consider "a = k" | "k < a" by force
      then show False
      proof cases
        case 1
        then show ?thesis using irr[OF nth_mem[OF k]] ly a(2) by simp
      next
        case 2
        then have "k < a \<and> a < length xs" using a by simp
        then have ka: "lt (xs ! k) (xs ! a)" using s unfolding sorted_to_def by blast
        have mk: "xs ! k \<in> set xs" by (rule nth_mem[OF k])
        have ma: "xs ! a \<in> set xs" by (rule nth_mem[OF a(1)])
        have "lt (xs ! k) (xs ! k)"
          using tr[OF mk ma mk ka] ly a by simp
        then show ?thesis using irr[OF mk] by simp
      qed
    qed
    then show "y \<in> set (take k xs)" using a by (auto simp: in_set_conv_nth)
  next
    fix y assume "y \<in> set (take k xs)"
    then obtain a where a: "a < k" "xs ! a = y" using k by (auto simp: in_set_conv_nth)
    then have "a < k \<and> k < length xs" using k by simp
    then have "lt (xs ! a) (xs ! k)" using s unfolding sorted_to_def by blast
    then have "lt y (xs ! k)" using a by simp
    moreover have "y \<in> set xs" using a k by auto
    ultimately show "y \<in> {y \<in> set xs. lt y (xs ! k)}" by simp
  qed
  moreover have "card (set (take k xs)) = k"
    using distinct_card[OF distinct_take[OF d, of k]] k by simp
  ultimately show ?thesis by simp
qed

lemma sorted_to_mono: "sorted_to lt xs k \<Longrightarrow> n \<le> k \<Longrightarrow> sorted_to lt xs n"
  by (auto simp: sorted_to_def)

lemma same_attrs_typ:
  assumes "same_attrs e e'" and "p < length (objects e)"
  shows "typ' (objects e' ! p) = typ' (objects e ! p)"
proof -
  have m: "map typ' (objects e') = map typ' (objects e)" using assms(1) by (simp add: same_attrs_def)
  then have "length (objects e') = length (objects e)" using length_map by metis
  then show ?thesis using assms(2) nth_map[of p "objects e'" typ'] nth_map[of p "objects e" typ'] m
    by simp
qed

lemma same_attrs_types_of:
  assumes "same_attrs e e'" and "ents_ok e'" and "length (objects e') = length (objects e)"
  shows "types_of e' = map (\<lambda>p. typ' (objects e ! p)) (entityTypes e')"
  unfolding types_of_def
proof (rule map_cong[OF refl])
  fix p assume "p \<in> set (entityTypes e')"
  then have "p < length (objects e)" using assms(2,3) by (auto simp: ents_ok_def)
  then show "typ' (objects e' ! p) = typ' (objects e ! p)" using same_attrs_typ[OF assms(1)] by simp
qed

lemma Swap_types:
  assumes ok: "ents_ok e" and i: "i < length (entityTypes e)" and j: "j < length (entityTypes e)"
    and ij: "i \<noteq> j" and sw: "Swap e i j = Inr e'"
  shows "types_of e' = (types_of e)[i := types_of e ! j, j := types_of e ! i]"
proof -
  from Swap_ok[OF ok i j ij] sw have ok': "ents_ok e'" and sa: "same_attrs e e'"
    and et: "entityTypes e' = (entityTypes e)[i := entityTypes e ! j, j := entityTypes e ! i]"
    by auto
  have "length (entityTypes e') = length (entityTypes e)" using et by simp
  then have len: "length (objects e') = length (objects e)"
    using ents_ok_length[OF ok] ents_ok_length[OF ok'] by simp
  show ?thesis
    unfolding same_attrs_types_of[OF sa ok' len] et
    using i j by (simp add: types_of_def map_update)
qed

lemma insertionSort_j_types:
  "ents_ok e \<Longrightarrow> j < length (entityTypes e) \<Longrightarrow> insertionSort_j E e j = Inr e' \<Longrightarrow>
     types_of e' = sift (type_less E) (types_of e) j"
proof (induction j arbitrary: e)
  case 0
  then show ?case by simp
next
  case (Suc j)
  have j: "j < length (entityTypes e)" using Suc.prems(2) by simp
  have ls: "Less E e (Suc j) j = Inr (type_less E (types_of e ! Suc j) (types_of e ! j))"
    using Suc.prems(1,2) j by (simp add: Less_ok type_less_def types_of_def)
  show ?case
  proof (cases "type_less E (types_of e ! Suc j) (types_of e ! j)")
    case False
    then show ?thesis using Suc.prems(3) ls by simp
  next
    case True
    from Swap_ok[OF Suc.prems(1) Suc.prems(2) j] obtain e1 where
      1: "Swap e (Suc j) j = Inr e1" "ents_ok e1"
         "entityTypes e1 = (entityTypes e)[Suc j := entityTypes e ! j, j := entityTypes e ! Suc j]"
      by auto
    have t1: "types_of e1 = (types_of e)[Suc j := types_of e ! j, j := types_of e ! Suc j]"
      using Swap_types[OF Suc.prems(1) Suc.prems(2) j _ 1(1)] by simp
    have j1: "j < length (entityTypes e1)" using 1(3) j by simp
    have 2: "insertionSort_j E e1 j = Inr e'" using Suc.prems(3) ls True 1(1) by simp
    from Suc.IH[OF 1(2) j1 2] show ?thesis using True t1 by simp
  qed
qed

lemma insertionSort_i_types:
  "ents_ok e \<Longrightarrow> \<forall>i\<in>set js. i < length (entityTypes e) \<Longrightarrow> insertionSort_i E js e = Inr e' \<Longrightarrow>
     types_of e' = sift_all (type_less E) js (types_of e)"
proof (induction js arbitrary: e)
  case Nil
  then show ?case by simp
next
  case (Cons i js)
  have i: "i < length (entityTypes e)" using Cons.prems(2) by simp
  from insertionSort_j_ok[OF Cons.prems(1) i, of E] obtain e1 where
    1: "insertionSort_j E e i = Inr e1" "ents_ok e1"
       "length (entityTypes e1) = length (entityTypes e)"
    by auto
  have 2: "insertionSort_i E js e1 = Inr e'" using Cons.prems(3) 1(1) by simp
  have b: "\<forall>i\<in>set js. i < length (entityTypes e1)" using Cons.prems(2) 1(3) by simp
  from Cons.IH[OF 1(2) b 2] insertionSort_j_types[OF Cons.prems(1) i 1(1)]
  show ?case by simp
qed

lemma sort_Sort_types:
  assumes "ents_ok e" and "sort_Sort E e = Inr e'"
  shows "types_of e' = sift_all (type_less E) [1..<Len e] (types_of e)"
proof -
  have "\<forall>i\<in>set [1..<Len e]. i < length (entityTypes e)"
    using assms(1) by (auto simp: Len_def ents_ok_def)
  from insertionSort_i_types[OF assms(1) this] assms(2) show ?thesis
    by (simp add: sort_Sort_def Let_def)
qed

lemma reg_ok_new: "reg_ok (new_Schema n)"
  using ents_ok_new[of n] by (simp add: reg_ok_def new_Schema_def)

lemma reg_ok_same_entities: "same_entities sb sb' \<Longrightarrow> reg_ok sb \<Longrightarrow> reg_ok sb'"
  using ents_ok_same_entities[of sb sb'] by (simp add: same_entities_def reg_ok_def)

lemma maybeAddTypeMapping_reg_ok:
  assumes r: "maybeAddTypeMapping E sb t ams = Inr sb'" and ok: "reg_ok sb"
  shows "reg_ok sb' \<and> map typ' (objects sb') = map typ' (objects sb) @ [t]"
proof -
  from maybeAddTypeMapping_entities[OF r] obtain ts where
    ts: "typ' ts = t" and
    1: "entityTypeSchemas sb' = AList.update t (length (objects sb)) (entityTypeSchemas sb)"
       "entityTypes sb' = entityTypes sb @ [length (objects sb)]"
       "objects sb' = objects sb @ [ts]"
    by blast
  have e: "ents_ok sb'" using maybeAddTypeMapping_ents_ok[OF r] ok by (simp add: reg_ok_def)
  have a: "entityTypes sb' = [0..<length (objects sb')]"
    using ok unfolding 1 reg_ok_def by simp
  have b: "distinct (map fst (entityTypeSchemas sb'))"
    using ok unfolding 1 reg_ok_def by (simp add: distinct_update)
  have c: "fst ` set (entityTypeSchemas sb') = typ' ` set (objects sb')"
    using ok ts unfolding 1 reg_ok_def by (simp add: dom_update)
  show ?thesis using e a b c ts unfolding reg_ok_def by (simp add: 1(3))
qed

lemma add_entityMappings_reg_ok:
  "add_entityMappings E tms sb = Inr sb' \<Longrightarrow> reg_ok sb \<Longrightarrow>
     reg_ok sb' \<and> map typ' (objects sb') = map typ' (objects sb) @ map fst tms"
proof (induction tms arbitrary: sb)
  case Nil
  then show ?case by simp
next
  case (Cons tm tms)
  from Cons.prems obtain sb1 where
    1: "maybeAddTypeMapping E sb (fst tm) (snd tm) = Inr sb1" and
    2: "add_entityMappings E tms sb1 = Inr sb'"
    by (auto split: sum.splits)
  from maybeAddTypeMapping_reg_ok[OF 1 Cons.prems(2)]
  have ok1: "reg_ok sb1" and m1: "map typ' (objects sb1) = map typ' (objects sb) @ [fst tm]"
    by simp_all
  from Cons.IH[OF 2 ok1] show ?case using m1 by simp
qed

lemma reg_ok_types_of:
  assumes "reg_ok sb"
  shows "types_of sb = map typ' (objects sb)"
proof -
  have e: "entityTypes sb = [0..<length (objects sb)]" using assms by (simp add: reg_ok_def)
  have "map (\<lambda>p. typ' (objects sb ! p)) [0..<length (objects sb)]
          = map typ' (map (\<lambda>p. objects sb ! p) [0..<length (objects sb)])"
    by (simp add: comp_def)
  also have "\<dots> = map typ' (objects sb)" by (simp only: map_nth)
  finally show ?thesis unfolding types_of_def e .
qed

lemma reg_ok_Len:
  assumes "reg_ok sb" and "distinct (map typ' (objects sb))"
  shows "Len sb = length (entityTypes sb)"
proof -
  have "length (entityTypeSchemas sb) = card (fst ` set (entityTypeSchemas sb))"
    using assms(1) distinct_card[of "map fst (entityTypeSchemas sb)"] by (simp add: reg_ok_def)
  also have "\<dots> = card (typ' ` set (objects sb))" using assms(1) by (simp add: reg_ok_def)
  also have "\<dots> = length (objects sb)" using distinct_card[OF assms(2)] by simp
  finally show ?thesis using assms(1) by (simp add: Len_def reg_ok_def)
qed

lemma buildSchema_types:
  assumes b: "buildSchema E n m = Inr sc" and d: "distinct (map fst (entityMappings m))"
    and lin: "strict_linear_on (fst ` set (entityMappings m)) (type_less E)"
  shows "ents_ok sc" and "set (types_of sc) = fst ` set (entityMappings m)"
    and "distinct (types_of sc)"
    and "sorted_to (type_less E) (types_of sc) (length (types_of sc))"
    and "fst ` set (entityTypeSchemas sc) = fst ` set (entityMappings m)"
proof -
  let ?T = "map fst (entityMappings m)"
  from b obtain sb1 sb2 sb3 where
    1: "add_attrTypes E (attrTypes' m) (new_Schema n) = Inr sb1" and
    2: "add_entityMappings E (entityMappings m) sb1 = Inr sb2" and
    3: "add_reserved E sb2 = Inr sb3" and
    4: "sort_Sort E sb3 = Inr sc"
    by (auto simp: buildSchema_def split: sum.splits)
  have se1: "same_entities (new_Schema n) sb1" using add_attrTypes_step[OF 1] by simp
  have r1: "reg_ok sb1" using reg_ok_same_entities[OF se1 reg_ok_new] .
  have o1: "objects sb1 = []" using se1 by (simp add: same_entities_def new_Schema_def)
  from add_entityMappings_reg_ok[OF 2 r1]
  have r2: "reg_ok sb2" and t2: "map typ' (objects sb2) = ?T" by (simp_all add: o1)
  have se3: "same_entities sb2 sb3"
  proof -
    from add_reserved_Inr[OF 3] obtain o1 s1 o2 s2 where
      a: "maybeAddAttribute E sb2 Self emptyInterfaceType = Inr (o1, s1)" and
      c: "maybeAddAttribute E (s1\<lparr>selfOrdinal := o1\<rparr>) Type reflectTypeType = Inr (o2, s2)" and
      e: "sb3 = s2\<lparr>typeOrdinal := o2\<rparr>" by blast
    show ?thesis
      using maybeAddAttribute_step(2)[OF a] maybeAddAttribute_step(2)[OF c] e
      by (simp add: same_entities_def)
  qed
  have r3: "reg_ok sb3" using reg_ok_same_entities[OF se3 r2] .
  have t3: "types_of sb3 = ?T"
    using reg_ok_types_of[OF r3] t2 se3 by (simp add: same_entities_def)
  have e3: "ents_ok sb3" using r3 by (simp add: reg_ok_def)
  have d3: "distinct (map typ' (objects sb3))" using t2 d se3 by (simp add: same_entities_def)
  have l3: "Len sb3 = length ?T"
    using reg_ok_Len[OF r3 d3] t3 by (simp add: types_of_def) (metis length_map t3 types_of_def)
  from sort_Sort_ok[OF e3, of E] 4 have e4: "ents_ok sc" and sa: "same_attrs sb3 sc" by auto
  have ts: "types_of sc = sift_all (type_less E) [1..<length ?T] ?T"
    using sort_Sort_types[OF e3 4] l3 t3 by simp
  have lin': "strict_linear_on (set ?T) (type_less E)" using lin by simp
  have s1: "sorted_to (type_less E) ?T 1" by (simp add: sorted_to_def)
  note S = sift_all_sorted[OF lin' d le_refl s1 zero_less_one]
  show "ents_ok sc" by (rule e4)
  show "set (types_of sc) = fst ` set (entityMappings m)" using S ts by simp
  show "distinct (types_of sc)" using S ts by simp
  have "length (types_of sc) \<le> max 1 (length ?T)" using S ts by simp
  then show "sorted_to (type_less E) (types_of sc) (length (types_of sc))"
    using S ts sorted_to_mono by metis
  show "fst ` set (entityTypeSchemas sc) = fst ` set (entityMappings m)"
    using r3 sa t2 se3 by (simp add: reg_ok_def same_attrs_def same_entities_def) (metis list.set_map)
qed

lemma ranks_registered_once:
  assumes b: "buildSchema E n m = Inr sc" and d: "distinct (map fst (entityMappings m))"
    and lin: "strict_linear_on (fst ` set (entityMappings m)) (type_less E)"
    and t: "t \<in> fst ` set (entityMappings m)"
  shows "typeRank sc t = Some (card {t' \<in> fst ` set (entityMappings m). type_less E t' t})"
proof -
  note B = buildSchema_types[OF b d lin]
  let ?T = "types_of sc"
  from t B(5) obtain p where mp: "map_of (entityTypeSchemas sc) t = Some p"
    by (metis (no_types, lifting) domD domI dom_map_of_conv_image_fst)
  then have "(t, p) \<in> set (entityTypeSchemas sc)" by (rule map_of_SomeD)
  then have p: "p < length (objects sc)" and tp: "typ' (objects sc ! p) = t"
    using B(1) by (auto simp: ents_ok_def)
  then have "p \<in> set (entityTypes sc)" using B(1) by (simp add: ents_ok_def)
  then obtain k where k: "k < length (entityTypes sc)" "entityTypes sc ! k = p"
    by (auto simp: in_set_conv_nth)
  have id: "typID (objects sc ! p) = k" using B(1) k by (auto simp: ents_ok_def)
  have kT: "k < length ?T" and Tk: "?T ! k = t" using k tp by (simp_all add: types_of_def)
  have lin': "strict_linear_on (set ?T) (type_less E)" using lin B(2) by simp
  from sorted_to_position[OF lin' B(3) B(4) kT]
  have "card {y \<in> fst ` set (entityMappings m). type_less E y t} = k"
    using Tk B(2) by simp
  then show ?thesis using mp p id by (simp add: typeRank_def)
qed

lemma ranks_contiguous_registered_once:
  assumes b: "buildSchema E n m = Inr sc" and d: "distinct (map fst (entityMappings m))"
    and lin: "strict_linear_on (fst ` set (entityMappings m)) (type_less E)"
  shows "typeRank sc ` fst ` set (entityMappings m)
           = Some ` {0..<card (fst ` set (entityMappings m))}"
proof -
  let ?S = "fst ` set (entityMappings m)" and ?T = "types_of sc"
  note B = buildSchema_types[OF b d lin]
  have cS: "card ?S = length ?T" using distinct_card[OF B(3)] B(2) by simp
  have lin': "strict_linear_on (set ?T) (type_less E)" using lin B(2) by simp
  have pos: "typeRank sc (?T ! k) = Some k" if k: "k < length ?T" for k
  proof -
    have "?T ! k \<in> ?S" using nth_mem[OF k] B(2) by simp
    from ranks_registered_once[OF b d lin this] sorted_to_position[OF lin' B(3) B(4) k] B(2)
    show ?thesis by simp
  qed
  show ?thesis
  proof (intro set_eqI iffI)
    fix r assume "r \<in> typeRank sc ` ?S"
    then obtain t where t: "t \<in> set ?T" "r = typeRank sc t" using B(2) by auto
    then obtain k where k: "k < length ?T" "?T ! k = t" by (auto simp: in_set_conv_nth)
    then show "r \<in> Some ` {0..<card ?S}" using pos[OF k(1)] t cS by simp
  next
    fix r assume "r \<in> Some ` {0..<card ?S}"
    then obtain k where k: "k < length ?T" "r = Some k" using cS by auto
    have "?T ! k \<in> ?S" using nth_mem[OF k(1)] B(2) by simp
    then show "r \<in> typeRank sc ` ?S" using pos[OF k(1)] k(2) by (metis imageI)
  qed
qed

lemma example_type_less:
  "type_less example_env (PtrTo example_optional) (PtrTo example_plain)"
  "\<not> type_less example_env (PtrTo example_plain) (PtrTo example_optional)"
  "\<not> type_less example_env (PtrTo example_plain) (PtrTo example_plain)"
  "\<not> type_less example_env (PtrTo example_optional) (PtrTo example_optional)"
  by (simp_all add: type_less_def example_env_def example_plain_def example_optional_def)

lemma example_types_differ: "PtrTo example_plain \<noteq> PtrTo example_optional"
  by (simp add: example_plain_def example_optional_def)

section \<open>The walk of a selector\<close>




lemma Kind_not_Struct_FieldByName:
  "Kind t \<noteq> reflect_Struct \<Longrightarrow>
   FieldByName E t f = Inl (PString (''reflect: FieldByName of non-struct type '' @ type_String t))"
  by (cases t) simp_all

section \<open>The types of the attributes and the field descriptors of a built schema\<close>

lemma fits_refl: "fits E typ typ"
  by (simp add: fits_def)

lemma checkType_fits:
  "checkType E typ fixed = (if fits E typ fixed then Inr None else Inr (Some (mismatch typ fixed)))"
  by (simp add: checkType_eq fits_def mismatch_def)

lemma table_le_refl: "table_le sb sb"
  by (simp add: table_le_def)

lemma table_le_trans: "table_le a b \<Longrightarrow> table_le b c \<Longrightarrow> table_le a c"
  unfolding table_le_def by (metis le_trans less_le_trans)

lemma maybeAddAttribute_table_le:
  assumes "maybeAddAttribute E sb a typ = Inr (ord, sb')"
  shows "table_le sb sb'"
proof (cases "attrToOrdinal sb a")
  case None
  with assms have sb': "sb' = sb\<lparr>attrs := attrs sb @ [a], attrTypes := attrTypes sb @ [typ],
                   attrToOrdinal := (attrToOrdinal sb)(a \<mapsto> length (attrs sb))\<rparr>"
    by (auto simp: maybeAddAttribute_new split: if_splits)
  show ?thesis unfolding sb' table_le_def using None by (auto simp: nth_append)
next
  case (Some i)
  with assms have "sb' = sb"
    by (auto simp: maybeAddAttribute_def split: if_splits sum.splits option.splits)
  then show ?thesis by (simp add: table_le_refl)
qed

lemma types_ok_new: "types_ok E [] (new_Schema n)"
  by (simp add: types_ok_def attrs_ok_new) (simp add: new_Schema_def)

lemma maybeAddAttribute_types_ok:
  assumes r: "maybeAddAttribute E sb a typ = Inr (ord, sb')" and ok: "types_ok E regs sb"
  shows "types_ok E (regs @ [(a, typ)]) sb'"
    and "ord < length (attrTypes sb')" and "fits E typ (attrTypes sb' ! ord)"
proof -
  have aok: "attrs_ok sb" and dom: "set (attrs sb) = fst ` set regs"
    using ok by (simp_all add: types_ok_def)
  have ty: "map_of regs b = Some (attrTypes sb ! i)" if "attrToOrdinal sb b = Some i" for b i
    using ok that unfolding types_ok_def by blast
  have ft: "\<exists>fixed. map_of regs b = Some fixed \<and> fits E t fixed" if "(b, t) \<in> set regs" for b t
    using ok that unfolding types_ok_def by fastforce
  have aok': "attrs_ok sb'" using maybeAddAttribute_ok(1)[OF aok r] .
  have at': "attrs sb' = register (attrs sb) a" using maybeAddAttribute_ok(2)[OF aok r] .
  have len: "length (attrTypes sb) = length (attrs sb)" using aok by (simp add: attrs_ok_def)
  have "types_ok E (regs @ [(a, typ)]) sb' \<and> ord < length (attrTypes sb') \<and>
    fits E typ (attrTypes sb' ! ord)"
  proof (cases "attrToOrdinal sb a")
    case None
    then have na: "a \<notin> set (attrs sb)" using aok attrs_ok_None by blast
    then have nr: "map_of regs a = None" using dom by (simp add: map_of_eq_None_iff)
    from None r have sb': "sb' = sb\<lparr>attrs := attrs sb @ [a], attrTypes := attrTypes sb @ [typ],
                   attrToOrdinal := (attrToOrdinal sb)(a \<mapsto> length (attrs sb))\<rparr>"
      and o: "ord = length (attrs sb)"
      by (auto simp: maybeAddAttribute_new split: if_splits)
    have m1: "map_of (regs @ [(a, typ)]) a = Some typ" using nr by (simp add: map_add_def)
    have m2: "map_of (regs @ [(a, typ)]) b = map_of regs b" if "b \<noteq> a" for b
      using that by (simp add: map_add_def split: option.splits)
    have 1: "set (attrs sb') = fst ` set (regs @ [(a, typ)])"
      using dom by (auto simp: sb')
    have 2: "map_of (regs @ [(a, typ)]) b = Some (attrTypes sb' ! i)"
      if h: "attrToOrdinal sb' b = Some i" for b i
    proof (cases "b = a")
      case True
      then have "i = length (attrs sb)" using h by (simp add: sb')
      then show ?thesis using True m1 len by (simp add: sb' nth_append)
    next
      case False
      then have s: "attrToOrdinal sb b = Some i" using h by (simp add: sb')
      then have "i < length (attrs sb)" using attrs_ok_lookup[OF aok, of b i] by simp
      then show ?thesis using ty[OF s] m2[OF False] len by (simp add: sb' nth_append)
    qed
    have 3: "\<exists>fixed. map_of (regs @ [(a, typ)]) b = Some fixed \<and> fits E t fixed"
      if h: "(b, t) \<in> set (regs @ [(a, typ)])" for b t
    proof (cases "b = a")
      case True
      have "(b, t) \<notin> set regs" using True na dom by force
      then have "t = typ" using h by simp
      then show ?thesis using True m1 fits_refl by simp
    next
      case False
      then have "(b, t) \<in> set regs" using h by simp
      then show ?thesis using ft m2[OF False] by simp
    qed
    have "types_ok E (regs @ [(a, typ)]) sb'"
      unfolding types_ok_def using aok' 1 2 3 by blast
    moreover have "ord < length (attrTypes sb')" using o len by (simp add: sb')
    moreover have "fits E typ (attrTypes sb' ! ord)"
      using o len[symmetric] by (simp add: sb' fits_refl)
    ultimately show ?thesis by blast
  next
    case (Some i)
    then have il: "i < length (attrTypes sb)" using attrs_ok_lookup[OF aok, of a i] len by simp
    from r Some il have c: "checkType E typ (attrTypes sb ! i) = Inr None" and sb': "sb' = sb"
      and o: "ord = i"
      by (auto simp: maybeAddAttribute_old split: sum.splits option.splits)
    have f: "fits E typ (attrTypes sb ! i)" using c by (simp add: checkType_fits split: if_splits)
    have ma: "map_of regs a = Some (attrTypes sb ! i)" using ty[OF Some] .
    have m: "map_of (regs @ [(a, typ)]) b = map_of regs b" if "b \<in> fst ` set regs" for b
    proof -
      from that obtain y where "map_of regs b = Some y"
        by (metis map_of_eq_None_iff not_Some_eq)
      then show ?thesis by (simp add: map_add_def)
    qed
    have ain: "a \<in> fst ` set regs" using ma by (metis map_of_eq_None_iff option.simps(3))
    have 1: "set (attrs sb') = fst ` set (regs @ [(a, typ)])" using dom ain by (auto simp: sb')
    have 2: "map_of (regs @ [(a, typ)]) b = Some (attrTypes sb' ! j)"
      if h: "attrToOrdinal sb' b = Some j" for b j
    proof -
      have "b \<in> fst ` set regs" using ty[of b j] h
        by (metis map_of_eq_None_iff option.simps(3) sb')
      then show ?thesis using ty[of b j] h m by (simp add: sb')
    qed
    have 3: "\<exists>fixed. map_of (regs @ [(a, typ)]) b = Some fixed \<and> fits E t fixed"
      if h: "(b, t) \<in> set (regs @ [(a, typ)])" for b t
    proof (cases "(b, t) \<in> set regs")
      case True
      then have "b \<in> fst ` set regs" by force
      then show ?thesis using ft[OF True] m by simp
    next
      case False
      then have "b = a" "t = typ" using h by auto
      then show ?thesis using m[OF ain] ma f by simp
    qed
    have "types_ok E (regs @ [(a, typ)]) sb'"
      unfolding types_ok_def using aok' 1 2 3 by blast
    moreover have "ord < length (attrTypes sb')" using o il sb' by simp
    moreover have "fits E typ (attrTypes sb' ! ord)" using o f sb' by simp
    ultimately show ?thesis by blast
  qed
  then show "types_ok E (regs @ [(a, typ)]) sb'" "ord < length (attrTypes sb')"
    "fits E typ (attrTypes sb' ! ord)" by blast+
qed

lemma makeFieldFlags_supported:
  assumes "makeFieldFlags cur = Inr (flags, ok)"
  shows "ok = supported cur"
    and "ok \<Longrightarrow> (if isPtr flags \<and> isScalar flags then Elem cur else Inr cur) = Inr (used_type cur)"
proof -
  show "ok = supported cur"
  proof (cases "Kind cur = reflect_Ptr")
    case True
    then obtain T where c: "cur = PtrTo T" using Kind_Ptr by blast
    show ?thesis using assms unfolding c
      by (auto simp: makeFieldFlags_def supported_def scalar_kind_def Let_def isPtr_def
          pointerField_def split: if_splits)
  next
    case False
    then have s: "supported cur = scalar_kind (Kind cur)"
      by (cases cur) (simp_all add: supported_def)
    show ?thesis using assms False unfolding s
      by (auto simp: makeFieldFlags_def scalar_kind_def Let_def isPtr_0 split: if_splits)
  qed
  show "(if isPtr flags \<and> isScalar flags then Elem cur else Inr cur) = Inr (used_type cur)" if ok
  proof (cases "Kind cur = reflect_Ptr")
    case True
    then obtain T where c: "cur = PtrTo T" using Kind_Ptr by blast
    have k: "Kind T = reflect_String \<or> isIntKind (Kind T) \<or> isUintKind (Kind T) \<or>
             Kind T = reflect_Struct"
      using assms that unfolding c
      by (auto simp: makeFieldFlags_def Let_def split: if_splits)
    then consider "Kind T = reflect_String" | "isIntKind (Kind T)" | "isUintKind (Kind T)"
      | "Kind T = reflect_Struct" by blast
    then show ?thesis
    proof cases
      case 1
      then have "flags = pointerField OR stringField" using assms unfolding c
        by (simp add: makeFieldFlags_ptr)
      then show ?thesis using 1 unfolding c by (simp add: flags_ptr_string scalar_kind_def)
    next
      case 2
      then have "flags = pointerField OR intField" using assms unfolding c
        by (simp add: makeFieldFlags_ptr)
      then show ?thesis using 2 unfolding c by (simp add: flags_ptr_int scalar_kind_def)
    next
      case 3
      then have "flags = pointerField OR uintField" using assms unfolding c
        by (simp add: makeFieldFlags_ptr)
      then show ?thesis using 3 unfolding c by (simp add: flags_ptr_uint scalar_kind_def)
    next
      case 4
      then have "flags = pointerField OR structField" using assms unfolding c
        by (simp add: makeFieldFlags_ptr)
      then show ?thesis using 4 unfolding c
        by (simp add: flags_ptr_struct scalar_kind_def isIntKind_def isUintKind_def)
    qed
  next
    case False
    then have u: "used_type cur = cur" by (cases cur) simp_all
    have "\<not> isPtr flags" using assms False that
      by (auto simp: makeFieldFlags_def Let_def flag_defs split: if_splits)
    then show ?thesis using u by simp
  qed
qed

lemma field_ok_mono:
  assumes "field_ok E sb t a sel f" and "table_le sb sb'"
  shows "field_ok E sb' t a sel f"
proof -
  from assms(1) obtain off cur where
    g: "getOffsetAndTypeFromSelector E t sel = Inr (off, cur)"
    by (auto simp: field_ok_def split: sum.splits)
  from assms(1) have
    h: "supported cur" "path f = sel" "field_typ f = used_type cur"
       "makeFieldFlags cur = Inr (fieldFlags f, True)"
       "attrToOrdinal sb a = Some (attr f)" "attr f < length (attrTypes sb)"
       "fits E (used_type cur) (attrTypes sb ! attr f)"
       "value' f = value_block (fieldFlags f) cur off"
       "inline f = inline_block (fieldFlags f) cur off"
       "comparableValue f = comparableValue_block (fieldFlags f) cur (used_type cur) off"
    by (auto simp: field_ok_def g)
  have 1: "attrToOrdinal sb' a = Some (attr f)" using h(5) assms(2) by (simp add: table_le_def)
  have 2: "attr f < length (attrTypes sb')" using h(6) assms(2) by (simp add: table_le_def)
  have 3: "attrTypes sb' ! attr f = attrTypes sb ! attr f"
    using h(6) assms(2) by (simp add: table_le_def)
  show ?thesis using h 1 2 3 by (simp add: field_ok_def g)
qed

lemma addTypeAttrMapping_field_ok:
  assumes r: "addTypeAttrMapping E sb a t sel = Inr (f, sb')" and ok: "types_ok E regs sb"
  shows "types_ok E (regs @ [(a, selector_type E t sel)]) sb'"
    and "table_le sb sb'" and "field_ok E sb' t a sel f"
proof -
  from r obtain off cur where g: "getOffsetAndTypeFromSelector E t sel = Inr (off, cur)"
    by (auto simp: addTypeAttrMapping_def split: sum.splits)
  from r g obtain flags where fl: "makeFieldFlags cur = Inr (flags, True)"
    by (auto simp: addTypeAttrMapping_def split: sum.splits prod.splits if_splits)
  note S = makeFieldFlags_supported[OF fl]
  have e: "(if isPtr flags \<and> isScalar flags then Elem cur else Inr cur) = Inr (used_type cur)"
    using S(2) by simp
  have "(case maybeAddAttribute E sb a (used_type cur) of
           Inl p \<Rightarrow> Inl p
         | Inr (ord, sb') \<Rightarrow>
             Inr (\<lparr>path = sel, field_typ = used_type cur, attr = ord,
                   comparableValue = comparableValue_block flags cur (used_type cur) off,
                   value' = value_block flags cur off,
                   inline = inline_block flags cur off,
                   fieldFlags = flags\<rparr>, sb')) = Inr (f, sb')"
    using r by (simp add: addTypeAttrMapping_def g fl e)
  then obtain ord where
    m: "maybeAddAttribute E sb a (used_type cur) = Inr (ord, sb')" and
    f: "f = \<lparr>path = sel, field_typ = used_type cur, attr = ord,
            comparableValue = comparableValue_block flags cur (used_type cur) off,
            value' = value_block flags cur off,
            inline = inline_block flags cur off,
            fieldFlags = flags\<rparr>"
    by (auto split: sum.splits)
  have st: "selector_type E t sel = used_type cur" by (simp add: selector_type_def g)
  note T = maybeAddAttribute_types_ok[OF m ok]
  show "types_ok E (regs @ [(a, selector_type E t sel)]) sb'" using T(1) st by simp
  show "table_le sb sb'" using maybeAddAttribute_table_le[OF m] .
  have ao: "attrToOrdinal sb' a = Some ord"
    using m by (auto simp: maybeAddAttribute_def Let_def split: if_splits sum.splits option.splits)
  show "field_ok E sb' t a sel f"
    using S(1) fl ao T(2,3) by (simp add: field_ok_def g f)
qed

lemma add_selectors_field_ok:
  "add_selectors E a t sels (fis, sb) = Inr (fis', sb') \<Longrightarrow> types_ok E regs sb \<Longrightarrow>
   types_ok E (regs @ map (\<lambda>sel. (a, selector_type E t sel)) sels) sb' \<and> table_le sb sb' \<and>
   (\<exists>new. fis' = fis @ new \<and> list_all2 (\<lambda>sel f. field_ok E sb' t a sel f) sels new)"
proof (induction sels arbitrary: fis sb regs)
  case Nil
  then show ?case by (simp add: table_le_refl)
next
  case (Cons sel sels)
  from Cons.prems(1) obtain fi sb1 where
    1: "addTypeAttrMapping E sb a t sel = Inr (fi, sb1)" and
    2: "add_selectors E a t sels (fis @ [fi], sb1) = Inr (fis', sb')"
    by (auto split: sum.splits)
  note A = addTypeAttrMapping_field_ok[OF 1 Cons.prems(2)]
  from Cons.IH[OF 2 A(1)] obtain new where
    t: "types_ok E ((regs @ [(a, selector_type E t sel)]) @
          map (\<lambda>sel. (a, selector_type E t sel)) sels) sb'" and
    l: "table_le sb1 sb'" and n: "fis' = (fis @ [fi]) @ new" and
    a2: "list_all2 (\<lambda>sel f. field_ok E sb' t a sel f) sels new" by blast
  have "field_ok E sb' t a sel fi" using field_ok_mono[OF A(3) l] .
  then have "fis' = fis @ (fi # new) \<and>
      list_all2 (\<lambda>sel f. field_ok E sb' t a sel f) (sel # sels) (fi # new)"
    using n a2 by simp
  moreover have "types_ok E (regs @ map (\<lambda>sel. (a, selector_type E t sel)) (sel # sels)) sb'"
    using t by simp
  ultimately show ?case using table_le_trans[OF A(2) l] by blast
qed

lemma add_attrMappings_field_ok:
  "add_attrMappings E t ams (fis, sb) = Inr (fis', sb') \<Longrightarrow> types_ok E regs sb \<Longrightarrow>
   types_ok E (regs @ uses_of E t ams) sb' \<and> table_le sb sb' \<and>
   (\<exists>new. fis' = fis @ new \<and>
      list_all2 (\<lambda>(a, sel) f. field_ok E sb' t a sel f) (selectors_of ams) new)"
proof (induction ams arbitrary: fis sb regs)
  case Nil
  then show ?case by (simp add: table_le_refl uses_of_def selectors_of_def)
next
  case (Cons am ams)
  from Cons.prems(1) obtain fis1 sb1 where
    1: "add_selectors E (fst am) t (snd am) (fis, sb) = Inr (fis1, sb1)" and
    2: "add_attrMappings E t ams (fis1, sb1) = Inr (fis', sb')"
    by (auto split: sum.splits)
  from add_selectors_field_ok[OF 1 Cons.prems(2)] obtain new1 where
    t1: "types_ok E (regs @ map (\<lambda>sel. (fst am, selector_type E t sel)) (snd am)) sb1" and
    l1: "table_le sb sb1" and n1: "fis1 = fis @ new1" and
    a1: "list_all2 (\<lambda>sel f. field_ok E sb1 t (fst am) sel f) (snd am) new1" by blast
  from Cons.IH[OF 2 t1] obtain new2 where
    t2: "types_ok E ((regs @ map (\<lambda>sel. (fst am, selector_type E t sel)) (snd am)) @
           uses_of E t ams) sb'" and
    l2: "table_le sb1 sb'" and n2: "fis' = fis1 @ new2" and
    a2: "list_all2 (\<lambda>(a, sel) f. field_ok E sb' t a sel f) (selectors_of ams) new2" by blast
  have u: "uses_of E t (am # ams) =
      map (\<lambda>sel. (fst am, selector_type E t sel)) (snd am) @ uses_of E t ams"
    by (simp add: uses_of_def selectors_of_def comp_def)
  have a1': "list_all2 (\<lambda>(a, sel) f. field_ok E sb' t a sel f) (map (Pair (fst am)) (snd am)) new1"
    using a1 by (auto simp: list_all2_map1 intro: list_all2_mono field_ok_mono[OF _ l2])
  have s: "selectors_of (am # ams) = map (Pair (fst am)) (snd am) @ selectors_of ams"
    by (simp add: selectors_of_def)
  have "fis' = fis @ (new1 @ new2) \<and>
      list_all2 (\<lambda>(a, sel) f. field_ok E sb' t a sel f) (selectors_of (am # ams)) (new1 @ new2)"
    using n1 n2 a1' a2 unfolding s by (simp add: list_all2_appendI)
  moreover have "types_ok E (regs @ uses_of E t (am # ams)) sb'"
    using t2 unfolding u by simp
  ultimately show ?case using table_le_trans[OF l1 l2] by blast
qed

lemma takeWhile_dropWhile_sorted:
  "sorted (map f xs) \<Longrightarrow> \<forall>y\<in>set xs. c \<le> f y \<Longrightarrow>
   takeWhile (\<lambda>y. f y = c) xs = filter (\<lambda>y. f y = c) xs \<and>
   dropWhile (\<lambda>y. f y = c) xs = filter (\<lambda>y. f y \<noteq> c) xs"
proof (induction xs)
  case Nil
  then show ?case by simp
next
  case (Cons x xs)
  show ?case
  proof (cases "f x = c")
    case True
    then show ?thesis using Cons by simp
  next
    case False
    then have "c < f x" using Cons.prems(2) by (simp add: order.strict_iff_order)
    then have "\<forall>y\<in>set xs. f y \<noteq> c" using Cons.prems(1) by fastforce
    then show ?thesis using False by (simp add: filter_id_conv filter_empty_conv)
  qed
qed

lemma group_runs_sorted:
  fixes xs :: "fieldInfo list"
  shows "sorted (map attr xs) \<Longrightarrow>
   group_runs xs m ord =
     (if ord \<in> attr ` set xs then Some (filter (\<lambda>f. attr f = ord) xs) else m ord)"
proof (induction xs m rule: group_runs.induct)
  case (1 m)
  then show ?case by simp
next
  case (2 x xs m)
  let ?c = "attr x"
  have s: "sorted (map attr xs)" and ge: "\<forall>y\<in>set xs. ?c \<le> attr y"
    using "2.prems" by simp_all
  note td = takeWhile_dropWhile_sorted[OF s ge]
  have tw: "takeWhile (\<lambda>y. attr y = ?c) xs = filter (\<lambda>y. attr y = ?c) xs"
    and dw: "dropWhile (\<lambda>y. attr y = ?c) xs = filter (\<lambda>y. attr y \<noteq> ?c) xs"
    using td by simp_all
  have sd: "sorted (map attr (dropWhile (\<lambda>y. attr y = ?c) xs))"
    using s unfolding dw by (simp add: sorted_filter)
  have ih: "group_runs (dropWhile (\<lambda>y. attr y = ?c) xs)
              (m(?c \<mapsto> x # takeWhile (\<lambda>y. attr y = ?c) xs)) ord =
     (if ord \<in> attr ` set (dropWhile (\<lambda>y. attr y = ?c) xs)
      then Some (filter (\<lambda>f. attr f = ord) (dropWhile (\<lambda>y. attr y = ?c) xs))
      else (m(?c \<mapsto> x # takeWhile (\<lambda>y. attr y = ?c) xs)) ord)"
    by (rule "2.IH"[OF refl sd])
  have g: "group_runs (x # xs) m ord =
      group_runs (dropWhile (\<lambda>y. attr y = ?c) xs)
        (m(?c \<mapsto> x # takeWhile (\<lambda>y. attr y = ?c) xs)) ord"
    by (simp only: group_runs.simps Let_def)
  show ?case
  proof (cases "ord = ?c")
    case True
    have "ord \<notin> attr ` set (dropWhile (\<lambda>y. attr y = ?c) xs)"
      unfolding dw using True by auto
    then show ?thesis unfolding g ih using True by (simp add: tw)
  next
    case False
    have f: "filter (\<lambda>f. attr f = ord) (dropWhile (\<lambda>y. attr y = ?c) xs)
               = filter (\<lambda>f. attr f = ord) xs"
      unfolding dw using False by (auto intro: filter_cong)
    have i: "ord \<in> attr ` set (dropWhile (\<lambda>y. attr y = ?c) xs) \<longleftrightarrow> ord \<in> attr ` set xs"
      unfolding dw using False by auto
    show ?thesis unfolding g ih f i using False by simp
  qed
qed

lemma types_ok_cong:
  assumes "attrs sb' = attrs sb" "attrTypes sb' = attrTypes sb"
    "attrToOrdinal sb' = attrToOrdinal sb"
  shows "types_ok E regs sb' = types_ok E regs sb"
  using assms by (simp add: types_ok_def attrs_ok_def)

lemma table_le_cong:
  assumes "attrTypes sb' = attrTypes sb" "attrToOrdinal sb' = attrToOrdinal sb"
  shows "table_le sb sb'" "table_le sb' sb"
  using assms by (simp_all add: table_le_def)

lemma entity_ok_mono:
  assumes "entity_ok E sb t ams ts" and "table_le sb sb'"
  shows "entity_ok E sb' t ams ts"
proof -
  from assms(1) obtain fs where
    1: "list_all2 (\<lambda>(a, sel) f. field_ok E sb t a sel f) (selectors_of ams) fs"
    and 2: "fields' ts = sort_key attr fs"
    unfolding entity_ok_def by blast
  have "list_all2 (\<lambda>(a, sel) f. field_ok E sb' t a sel f) (selectors_of ams) fs"
    using 1 by (rule list_all2_mono) (auto intro: field_ok_mono[OF _ assms(2)])
  then show ?thesis using assms(1) 2 unfolding entity_ok_def by blast
qed

lemma entity_ok_cong:
  assumes "entity_ok E sb t ams ts"
    and "typ' ts' = typ' ts" "fields' ts' = fields' ts" "attrFields ts' = attrFields ts"
  shows "entity_ok E sb t ams ts'"
  using assms by (simp add: entity_ok_def)

lemma maybeAddTypeMapping_entity_ok:
  assumes r: "maybeAddTypeMapping E sb t ams = Inr sb'" and ok: "types_ok E regs sb"
  shows "types_ok E (regs @ uses_of E t ams) sb'" and "table_le sb sb'"
    and "\<exists>ts. objects sb' = objects sb @ [ts] \<and> entity_ok E sb' t ams ts"
proof -
  from r obtain fis sb1 where
    0: "isStructPointer t = Inr True" and
    1: "add_attrMappings E t ams ([], sb) = Inr (fis, sb1)"
    by (auto simp: maybeAddTypeMapping_def Let_def split: sum.splits bool.splits prod.splits)
  define ts where "ts = \<lparr>typ' = t, fields' = sort_key attr fis,
      attrFields = group_runs (sort_key attr fis) Map.empty, typID = length (entityTypes sb1)\<rparr>"
  have sb': "sb' = sb1\<lparr>entityTypeSchemas := AList.update t (length (objects sb1)) (entityTypeSchemas sb1),
                      entityTypes := entityTypes sb1 @ [length (objects sb1)],
                      objects := objects sb1 @ [ts]\<rparr>"
    using r 0 1 by (simp add: maybeAddTypeMapping_def Let_def ts_def)
  from add_attrMappings_field_ok[OF 1 ok] have
    t1: "types_ok E (regs @ uses_of E t ams) sb1" and l1: "table_le sb sb1" and
    a1: "list_all2 (\<lambda>(a, sel) f. field_ok E sb1 t a sel f) (selectors_of ams) fis" by auto
  have se: "objects sb1 = objects sb"
    using add_attrMappings_step[OF 1] by (simp add: same_entities_def)
  have c: "attrs sb' = attrs sb1" "attrTypes sb' = attrTypes sb1"
    "attrToOrdinal sb' = attrToOrdinal sb1" by (simp_all add: sb')
  show "types_ok E (regs @ uses_of E t ams) sb'" using t1 types_ok_cong[OF c] by simp
  have l2: "table_le sb1 sb'" using table_le_cong(1)[OF c(2,3)] .
  show "table_le sb sb'" using table_le_trans[OF l1 l2] .
  have e1: "entity_ok E sb1 t ams ts"
    unfolding entity_ok_def
  proof (intro conjI allI)
    show "typ' ts = t" by (simp add: ts_def)
    show "isStructPointer t = Inr True" by (rule 0)
    show "\<exists>fs. list_all2 (\<lambda>(a, sel) f. field_ok E sb1 t a sel f) (selectors_of ams) fs \<and>
           fields' ts = sort_key attr fs"
      using a1 by (auto simp: ts_def)
    fix ord
    have "sorted (map attr (sort_key attr fis))" by simp
    from group_runs_sorted[OF this, of Map.empty ord]
    show "attrFields ts ord =
        (if ord \<in> attr ` set (fields' ts)
         then Some (filter (\<lambda>f. attr f = ord) (fields' ts)) else None)"
      by (simp add: ts_def)
  qed
  have "objects sb' = objects sb @ [ts]" using se by (simp add: sb')
  then show "\<exists>ts. objects sb' = objects sb @ [ts] \<and> entity_ok E sb' t ams ts"
    using entity_ok_mono[OF e1 l2] by blast
qed

lemma add_entityMappings_entity_ok:
  "add_entityMappings E tms sb = Inr sb' \<Longrightarrow> types_ok E regs sb \<Longrightarrow>
   types_ok E (regs @ concat (map (\<lambda>tm. uses_of E (fst tm) (snd tm)) tms)) sb' \<and>
   table_le sb sb' \<and>
   (\<exists>new. objects sb' = objects sb @ new \<and>
      list_all2 (\<lambda>tm ts. entity_ok E sb' (fst tm) (snd tm) ts) tms new)"
proof (induction tms arbitrary: sb regs)
  case Nil
  then show ?case by (simp add: table_le_refl)
next
  case (Cons tm tms)
  from Cons.prems(1) obtain sb1 where
    1: "maybeAddTypeMapping E sb (fst tm) (snd tm) = Inr sb1" and
    2: "add_entityMappings E tms sb1 = Inr sb'"
    by (auto split: sum.splits)
  note M = maybeAddTypeMapping_entity_ok[OF 1 Cons.prems(2)]
  from M(3) obtain ts where o1: "objects sb1 = objects sb @ [ts]"
    and e1: "entity_ok E sb1 (fst tm) (snd tm) ts" by blast
  from Cons.IH[OF 2 M(1)] obtain new where
    t2: "types_ok E ((regs @ uses_of E (fst tm) (snd tm)) @
           concat (map (\<lambda>tm. uses_of E (fst tm) (snd tm)) tms)) sb'" and
    l2: "table_le sb1 sb'" and o2: "objects sb' = objects sb1 @ new" and
    a2: "list_all2 (\<lambda>tm ts. entity_ok E sb' (fst tm) (snd tm) ts) tms new" by blast
  have "types_ok E (regs @ concat (map (\<lambda>tm. uses_of E (fst tm) (snd tm)) (tm # tms))) sb'"
    using t2 by simp
  moreover have "table_le sb sb'" using table_le_trans[OF M(2) l2] .
  moreover have "objects sb' = objects sb @ (ts # new) \<and>
      list_all2 (\<lambda>tm ts. entity_ok E sb' (fst tm) (snd tm) ts) (tm # tms) (ts # new)"
    using o1 o2 a2 entity_ok_mono[OF e1 l2] by simp
  ultimately show ?case by blast
qed

lemma add_attrTypes_types_ok:
  "add_attrTypes E decls sb = Inr sb' \<Longrightarrow> types_ok E regs sb \<Longrightarrow>
   types_ok E (regs @ decls) sb'"
proof (induction decls arbitrary: sb regs)
  case Nil
  then show ?case by simp
next
  case (Cons d decls)
  from Cons.prems(1) obtain ord sb1 where
    1: "maybeAddAttribute E sb (fst d) (snd d) = Inr (ord, sb1)" and
    2: "add_attrTypes E decls sb1 = Inr sb'"
    by (auto split: sum.splits)
  from maybeAddAttribute_types_ok(1)[OF 1 Cons.prems(2)]
  have "types_ok E (regs @ [d]) sb1" by simp
  from Cons.IH[OF 2 this] show ?case by simp
qed

lemma add_reserved_types_ok:
  assumes r: "add_reserved E sb = Inr sb'" and ok: "types_ok E regs sb"
  shows "types_ok E (regs @ [(Self, emptyInterfaceType), (Type, reflectTypeType)]) sb'"
    and "table_le sb sb'" and "objects sb' = objects sb"
proof -
  from add_reserved_Inr[OF r] obtain o1 sb1 o2 sb2 where
    1: "maybeAddAttribute E sb Self emptyInterfaceType = Inr (o1, sb1)" and
    2: "maybeAddAttribute E (sb1\<lparr>selfOrdinal := o1\<rparr>) Type reflectTypeType = Inr (o2, sb2)" and
    3: "sb' = sb2\<lparr>typeOrdinal := o2\<rparr>"
    by blast
  let ?sb1 = "sb1\<lparr>selfOrdinal := o1\<rparr>"
  have t1: "types_ok E (regs @ [(Self, emptyInterfaceType)]) sb1"
    using maybeAddAttribute_types_ok(1)[OF 1 ok] .
  have t1': "types_ok E (regs @ [(Self, emptyInterfaceType)]) ?sb1"
    using t1 types_ok_cong[of ?sb1 sb1] by simp
  have t2: "types_ok E ((regs @ [(Self, emptyInterfaceType)]) @ [(Type, reflectTypeType)]) sb2"
    using maybeAddAttribute_types_ok(1)[OF 2 t1'] .
  show "types_ok E (regs @ [(Self, emptyInterfaceType), (Type, reflectTypeType)]) sb'"
    using t2 types_ok_cong[of sb' sb2] by (simp add: 3)
  have "table_le sb sb1" using maybeAddAttribute_table_le[OF 1] .
  moreover have "table_le sb1 ?sb1" by (simp add: table_le_def)
  moreover have "table_le ?sb1 sb2" using maybeAddAttribute_table_le[OF 2] .
  moreover have "table_le sb2 sb'" by (simp add: table_le_def 3)
  ultimately show "table_le sb sb'" using table_le_trans by blast
  show "objects sb' = objects sb"
    using maybeAddAttribute_frame(3)[OF 1] maybeAddAttribute_frame(3)[OF 2] by (simp add: 3)
qed

lemma same_fields_refl: "same_fields e e"
  by (simp add: same_fields_def)

lemma same_fields_trans: "same_fields a b \<Longrightarrow> same_fields b c \<Longrightarrow> same_fields a c"
  by (simp add: same_fields_def)

lemma set_typID_fields:
  assumes "set_typID e i v = Inr e'"
  shows "same_fields e e'" and "entityTypes e' = entityTypes e"
proof -
  let ?p = "entityTypes e ! i"
  from assms have e': "e' = e\<lparr>objects := (objects e)[?p := (objects e ! ?p)\<lparr>typID := v\<rparr>]\<rparr>"
    by (auto simp: set_typID_def deref_def split: sum.splits if_splits)
  show "same_fields e e'" unfolding e' same_fields_def
    by (simp add: map_update list_update_same_conv)
       (metis length_map list_update_beyond list_update_id nth_map not_le_imp_less)
  show "entityTypes e' = entityTypes e" by (simp add: e')
qed

lemma Swap_fields:
  assumes "Swap e i j = Inr e'"
  shows "same_fields e e'"
proof -
  from assms obtain e1 e2 where
    1: "set_typID e i j = Inr e1" and 2: "set_typID e1 j i = Inr e2" and
    3: "e' = e2\<lparr>entityTypes := (entityTypes e2)[i := entityTypes e2 ! j, j := entityTypes e2 ! i]\<rparr>"
    by (auto simp: Swap_def split: sum.splits)
  have "same_fields e e2"
    using same_fields_trans[OF set_typID_fields(1)[OF 1] set_typID_fields(1)[OF 2]] .
  then show ?thesis by (simp add: same_fields_def 3)
qed

lemma insertionSort_j_fields:
  "insertionSort_j E e j = Inr e' \<Longrightarrow> same_fields e e'"
proof (induction j arbitrary: e)
  case 0
  then show ?case by (simp add: same_fields_refl)
next
  case (Suc j)
  from Suc.prems obtain lt where l: "Less E e (Suc j) j = Inr lt"
    by (auto split: sum.splits)
  show ?case
  proof (cases lt)
    case False
    then show ?thesis using Suc.prems l by (simp add: same_fields_refl)
  next
    case True
    from Suc.prems l True obtain e1 where
      1: "Swap e (Suc j) j = Inr e1" and 2: "insertionSort_j E e1 j = Inr e'"
      by (auto split: sum.splits)
    show ?thesis using same_fields_trans[OF Swap_fields[OF 1] Suc.IH[OF 2]] .
  qed
qed

lemma insertionSort_i_fields:
  "insertionSort_i E js e = Inr e' \<Longrightarrow> same_fields e e'"
proof (induction js arbitrary: e)
  case Nil
  then show ?case by (simp add: same_fields_refl)
next
  case (Cons i js)
  from Cons.prems obtain e1 where
    1: "insertionSort_j E e i = Inr e1" and 2: "insertionSort_i E js e1 = Inr e'"
    by (auto split: sum.splits)
  show ?case using same_fields_trans[OF insertionSort_j_fields[OF 1] Cons.IH[OF 2]] .
qed

lemma sort_Sort_fields: "sort_Sort E e = Inr e' \<Longrightarrow> same_fields e e'"
  using insertionSort_i_fields by (simp add: sort_Sort_def Let_def)

lemma last_registered_Nil: "last_registered [] []"
  by (simp add: last_registered_def)

lemma last_registered_snoc:
  assumes "last_registered ts ets"
  shows "last_registered (ts @ [t]) (AList.update t (length ts) ets)"
  unfolding last_registered_def
proof (intro allI)
  fix u p
  have m: "map_of (AList.update t (length ts) ets) = (map_of ets)(t \<mapsto> length ts)"
    by (rule update_conv')
  show "map_of (AList.update t (length ts) ets) u = Some p \<longleftrightarrow>
        p < length (ts @ [t]) \<and> (ts @ [t]) ! p = u \<and>
        (\<forall>q. p < q \<and> q < length (ts @ [t]) \<longrightarrow> (ts @ [t]) ! q \<noteq> u)"
  proof (cases "u = t")
    case True
    have "(p < Suc (length ts) \<and> (ts @ [t]) ! p = t \<and>
        (\<forall>q. p < q \<and> q < Suc (length ts) \<longrightarrow> (ts @ [t]) ! q \<noteq> t)) \<longleftrightarrow> p = length ts"
    proof
      assume h: "p < Suc (length ts) \<and> (ts @ [t]) ! p = t \<and>
        (\<forall>q. p < q \<and> q < Suc (length ts) \<longrightarrow> (ts @ [t]) ! q \<noteq> t)"
      show "p = length ts"
      proof (rule ccontr)
        assume "p \<noteq> length ts"
        then have "p < length ts \<and> length ts < Suc (length ts)" using h by simp
        then have "(ts @ [t]) ! length ts \<noteq> t" using h by blast
        then show False by simp
      qed
    next
      assume "p = length ts"
      then show "p < Suc (length ts) \<and> (ts @ [t]) ! p = t \<and>
        (\<forall>q. p < q \<and> q < Suc (length ts) \<longrightarrow> (ts @ [t]) ! q \<noteq> t)" by auto
    qed
    then show ?thesis using True by (auto simp: m)
  next
    case False
    have a: "map_of (AList.update t (length ts) ets) u = map_of ets u" using False by (simp add: m)
    have b: "map_of ets u = Some p \<longleftrightarrow>
        p < length ts \<and> ts ! p = u \<and> (\<forall>q. p < q \<and> q < length ts \<longrightarrow> ts ! q \<noteq> u)"
      using assms unfolding last_registered_def by blast
    have c: "(p < length ts \<and> ts ! p = u \<and> (\<forall>q. p < q \<and> q < length ts \<longrightarrow> ts ! q \<noteq> u)) \<longleftrightarrow>
        (p < length (ts @ [t]) \<and> (ts @ [t]) ! p = u \<and>
        (\<forall>q. p < q \<and> q < length (ts @ [t]) \<longrightarrow> (ts @ [t]) ! q \<noteq> u))"
    proof
      assume h: "p < length ts \<and> ts ! p = u \<and> (\<forall>q. p < q \<and> q < length ts \<longrightarrow> ts ! q \<noteq> u)"
      have "(ts @ [t]) ! q \<noteq> u" if "p < q \<and> q < length (ts @ [t])" for q
        using that h False by (cases "q = length ts") (auto simp: nth_append)
      then show "p < length (ts @ [t]) \<and> (ts @ [t]) ! p = u \<and>
        (\<forall>q. p < q \<and> q < length (ts @ [t]) \<longrightarrow> (ts @ [t]) ! q \<noteq> u)"
        using h by (simp add: nth_append)
    next
      assume h: "p < length (ts @ [t]) \<and> (ts @ [t]) ! p = u \<and>
        (\<forall>q. p < q \<and> q < length (ts @ [t]) \<longrightarrow> (ts @ [t]) ! q \<noteq> u)"
      have pl: "p < length ts" using h False by (cases "p = length ts") auto
      have "ts ! q \<noteq> u" if "p < q \<and> q < length ts" for q
      proof -
        have "(ts @ [t]) ! q \<noteq> u" using h that by simp
        then show ?thesis using that by (simp add: nth_append)
      qed
      then show "p < length ts \<and> ts ! p = u \<and> (\<forall>q. p < q \<and> q < length ts \<longrightarrow> ts ! q \<noteq> u)"
        using h pl by (simp add: nth_append)
    qed
    show ?thesis unfolding a b c ..
  qed
qed

lemma add_entityMappings_last_registered:
  "add_entityMappings E tms sb = Inr sb' \<Longrightarrow>
   last_registered (map typ' (objects sb)) (entityTypeSchemas sb) \<Longrightarrow>
   last_registered (map typ' (objects sb')) (entityTypeSchemas sb')"
proof (induction tms arbitrary: sb)
  case Nil
  then show ?case by simp
next
  case (Cons tm tms)
  from Cons.prems(1) obtain sb1 where
    1: "maybeAddTypeMapping E sb (fst tm) (snd tm) = Inr sb1" and
    2: "add_entityMappings E tms sb1 = Inr sb'"
    by (auto split: sum.splits)
  from maybeAddTypeMapping_entities[OF 1] obtain ts where
    ts: "typ' ts = fst tm" and
    e: "entityTypeSchemas sb1 = AList.update (fst tm) (length (objects sb)) (entityTypeSchemas sb)"
       "objects sb1 = objects sb @ [ts]"
    by blast
  have "last_registered (map typ' (objects sb1)) (entityTypeSchemas sb1)"
    using last_registered_snoc[OF Cons.prems(2), of "fst tm"] by (simp add: e ts)
  from Cons.IH[OF 2 this] show ?case .
qed

lemma entity_ok_typ: "entity_ok E sc t ams ts \<Longrightarrow> typ' ts = t"
  by (simp add: entity_ok_def)

lemma list_all2_entity_typ:
  "list_all2 (\<lambda>tm ts. entity_ok E sc (fst tm) (snd tm) ts) tms objs \<Longrightarrow>
   map typ' objs = map fst tms"
  by (induction tms objs rule: list_all2_induct) (simp_all add: entity_ok_typ)

lemma buildSchema_built:
  assumes b: "buildSchema E n m = Inr sc"
  shows "built_from E m sc"
proof -
  from b obtain sb1 sb2 sb3 where
    1: "add_attrTypes E (attrTypes' m) (new_Schema n) = Inr sb1" and
    2: "add_entityMappings E (entityMappings m) sb1 = Inr sb2" and
    3: "add_reserved E sb2 = Inr sb3" and
    4: "sort_Sort E sb3 = Inr sc"
    by (auto simp: buildSchema_def split: sum.splits)
  have o1: "objects sb1 = []" "entityTypeSchemas sb1 = []"
    using add_attrTypes_step[OF 1] by (simp_all add: same_entities_def new_Schema_def)
  have t1: "types_ok E (attrTypes' m) sb1"
    using add_attrTypes_types_ok[OF 1 types_ok_new] by simp
  from add_entityMappings_entity_ok[OF 2 t1] o1 have
    t2: "types_ok E (attrTypes' m @
           concat (map (\<lambda>tm. uses_of E (fst tm) (snd tm)) (entityMappings m))) sb2" and
    a2: "list_all2 (\<lambda>tm ts. entity_ok E sb2 (fst tm) (snd tm) ts) (entityMappings m) (objects sb2)"
    by auto
  have l2: "last_registered (map typ' (objects sb2)) (entityTypeSchemas sb2)"
    using add_entityMappings_last_registered[OF 2] o1 by (simp add: last_registered_Nil)
  note R = add_reserved_types_ok[OF 3 t2]
  have t3: "types_ok E (typed_registrations E m) sb3"
    using R(1) by (simp add: typed_registrations_def)
  have a3: "list_all2 (\<lambda>tm ts. entity_ok E sb3 (fst tm) (snd tm) ts) (entityMappings m) (objects sb3)"
    using a2 R(3) by (auto intro: list_all2_mono entity_ok_mono[OF _ R(2)])
  have e3: "entityTypeSchemas sb3 = entityTypeSchemas sb2"
    using add_reserved_Inr[OF 3] maybeAddAttribute_frame(2) by fastforce
  have ok3: "ents_ok sb3"
    using add_reserved_step(2)[OF 3] add_entityMappings_ents_ok[OF 2]
      ents_ok_same_entities[OF conjunct2[OF add_attrTypes_step[OF 1]] ents_ok_new] by blast
  from sort_Sort_ok[OF ok3, of E] 4 have sa: "same_attrs sb3 sc" by auto
  note sf = sort_Sort_fields[OF 4]
  have c: "attrs sc = attrs sb3" "attrTypes sc = attrTypes sb3"
    "attrToOrdinal sc = attrToOrdinal sb3" using sa by (simp_all add: same_attrs_def)
  have t4: "types_ok E (typed_registrations E m) sc" using t3 types_ok_cong[OF c] by simp
  have ty: "map typ' (objects sc) = map typ' (objects sb3)" using sa by (simp add: same_attrs_def)
  have len: "length (objects sc) = length (objects sb3)" using ty by (metis length_map)
  have a4: "list_all2 (\<lambda>tm ts. entity_ok E sc (fst tm) (snd tm) ts) (entityMappings m) (objects sc)"
  proof (rule list_all2_all_nthI)
    show "length (entityMappings m) = length (objects sc)"
      using list_all2_lengthD[OF a3] len by simp
  next
    fix i assume i: "i < length (entityMappings m)"
    then have io: "i < length (objects sb3)" using list_all2_lengthD[OF a3] by simp
    have e: "entity_ok E sb3 (fst (entityMappings m ! i)) (snd (entityMappings m ! i)) (objects sb3 ! i)"
      using list_all2_nthD[OF a3 i] .
    have "typ' (objects sc ! i) = typ' (objects sb3 ! i)"
      using ty io len by (metis nth_map)
    moreover have "fields' (objects sc ! i) = fields' (objects sb3 ! i)"
      using sf io len unfolding same_fields_def by (metis nth_map)
    moreover have "attrFields (objects sc ! i) = attrFields (objects sb3 ! i)"
      using sf io len unfolding same_fields_def by (metis nth_map)
    ultimately have "entity_ok E sb3 (fst (entityMappings m ! i)) (snd (entityMappings m ! i))
        (objects sc ! i)" using entity_ok_cong[OF e] by blast
    then show "entity_ok E sc (fst (entityMappings m ! i)) (snd (entityMappings m ! i))
        (objects sc ! i)"
      using entity_ok_mono[OF _ table_le_cong(1)[OF c(2,3)]] by blast
  qed
  have l4: "last_registered (map fst (entityMappings m)) (entityTypeSchemas sc)"
    using l2 list_all2_entity_typ[OF a2] e3 sa by (simp add: same_attrs_def)
  have can: "sorted_to (type_less E) (types_of sc) (length (entityMappings m)) \<and>
        (\<forall>t \<in> fst ` set (entityMappings m).
           typeRank sc t = Some (card {t' \<in> fst ` set (entityMappings m). type_less E t' t}))"
    if d: "distinct (map fst (entityMappings m))"
      and lin: "strict_linear_on (fst ` set (entityMappings m)) (type_less E)"
  proof -
    note B = buildSchema_types[OF b d lin]
    have "length (types_of sc) = length (entityMappings m)"
      using ents_ok_length[OF B(1)] list_all2_lengthD[OF a4] by (simp add: types_of_def)
    then show ?thesis using B(4) ranks_registered_once[OF b d lin] by simp
  qed
  show ?thesis
    unfolding built_from_def
    using buildSchema_Inr(1,2)[OF b] t4 a4 l4 can by blast
qed

section \<open>The panics of a construction\<close>

lemma bad_use_shift: "bad_use E (regs @ xs) us p \<Longrightarrow> bad_use E regs (xs @ us) p"
proof -
  assume "bad_use E (regs @ xs) us p"
  then obtain pre a ty post fixed where
    h: "us = pre @ (a, ty) # post" "map_of ((regs @ xs) @ pre) a = Some fixed"
       "\<not> fits E ty fixed" "p = PError (type_mismatch_for (mismatch ty fixed) a)"
    unfolding bad_use_def by blast
  have "xs @ us = (xs @ pre) @ (a, ty) # post \<and> map_of (regs @ (xs @ pre)) a = Some fixed"
    using h(1,2) by simp
  then show ?thesis unfolding bad_use_def using h(3,4) by blast
qed

lemma bad_use_extend: "bad_use E regs us p \<Longrightarrow> bad_use E regs (us @ ys) p"
proof -
  assume "bad_use E regs us p"
  then obtain pre a ty post fixed where
    h: "us = pre @ (a, ty) # post" "map_of (regs @ pre) a = Some fixed"
       "\<not> fits E ty fixed" "p = PError (type_mismatch_for (mismatch ty fixed) a)"
    unfolding bad_use_def by blast
  have "us @ ys = pre @ (a, ty) # (post @ ys)" using h(1) by simp
  then show ?thesis unfolding bad_use_def using h(2,3,4) by blast
qed

lemma maybeAddAttribute_Inl:
  assumes r: "maybeAddAttribute E sb a typ = Inl p" and ok: "types_ok E regs sb"
  shows "p = PError too_many_attributes \<or> bad_use E regs [(a, typ)] p"
proof (cases "attrToOrdinal sb a")
  case None
  then show ?thesis using r by (auto simp: maybeAddAttribute_new split: if_splits)
next
  case (Some i)
  have aok: "attrs_ok sb" using ok by (simp add: types_ok_def)
  have il: "i < length (attrTypes sb)"
    using attrs_ok_lookup[OF aok, of a i] Some aok by (simp add: attrs_ok_def)
  have ma: "map_of regs a = Some (attrTypes sb ! i)"
    using ok Some unfolding types_ok_def by blast
  from r Some il have nf: "\<not> fits E typ (attrTypes sb ! i)"
    and p: "p = PError (type_mismatch_for (mismatch typ (attrTypes sb ! i)) a)"
    by (auto simp: maybeAddAttribute_old checkType_fits split: if_splits)
  have "[(a, typ)] = [] @ (a, typ) # [] \<and> map_of (regs @ []) a = Some (attrTypes sb ! i)"
    using ma by simp
  then have "bad_use E regs [(a, typ)] p" unfolding bad_use_def using nf p by blast
  then show ?thesis by simp
qed

lemma selector_names_Inl_cases:
  "selector_names E sp sl rest off cur = Inl p \<Longrightarrow>
   p = PError (is_not_a_field sp sl) \<or>
   (\<exists>u. p = PString (''reflect: FieldByName of non-struct type '' @ type_String u))"
proof (induction rest arbitrary: off cur)
  case Nil
  then show ?case by simp
next
  case (Cons x rest)
  show ?case
  proof (cases "FieldByName E cur x")
    case (Inl q)
    then have k: "Kind cur \<noteq> reflect_Struct" by (cases cur) auto
    have "p = q" using Cons.prems Inl by simp
    then show ?thesis using Inl Kind_not_Struct_FieldByName[OF k, of E x] by auto
  next
    case (Inr r)
    show ?thesis
    proof (cases r)
      case None
      then show ?thesis using Cons.prems Inr by simp
    next
      case (Some sf)
      obtain o1 t1 where sf: "sf = (o1, t1)" by (cases sf)
      have "selector_names E sp sl rest (off + o1) t1 = Inl p"
        using Cons.prems Inr Some sf by simp
      from Cons.IH[OF this] show ?thesis .
    qed
  qed
qed

lemma addTypeAttrMapping_Inl:
  assumes r: "addTypeAttrMapping E sb a t sel = Inl p" and ok: "types_ok E regs sb"
    and sp: "isStructPointer t = Inr True"
  shows "p = PError too_many_attributes \<or> bad_use E regs [(a, selector_type E t sel)] p \<or>
         bad_selector E t sel p"
proof (cases "getOffsetAndTypeFromSelector E t sel")
  case (Inl q)
  then have pq: "p = q" using r by (simp add: addTypeAttrMapping_def)
  obtain S where t: "t = PtrTo S" using sp Kind_Ptr[of t]
    by (auto simp: isStructPointer_def split: if_splits)
  have "selector_names E t sel (Split sel (CHR ''.'')) 0 S = Inl p"
    using Inl pq by (simp add: getOffsetAndTypeFromSelector_def t)
  from selector_names_Inl_cases[OF this] show ?thesis
    using Inl pq by (simp add: bad_selector_def)
next
  case (Inr r1)
  obtain off cur where r1: "r1 = (off, cur)" by (cases r1)
  note g = Inr[unfolded r1]
  obtain flags ok' where fl: "makeFieldFlags cur = Inr (flags, ok')"
    using makeFieldFlags_Inr by blast
  note S = makeFieldFlags_supported[OF fl]
  show ?thesis
  proof (cases ok')
    case False
    then have "p = PError (has_unsupported_type sel t cur)"
      using r by (simp add: addTypeAttrMapping_def g fl)
    then show ?thesis using g S(1) False by (simp add: bad_selector_def)
  next
    case True
    have e: "(if isPtr flags \<and> isScalar flags then Elem cur else Inr cur) = Inr (used_type cur)"
      using S(2) True by simp
    have m: "maybeAddAttribute E sb a (used_type cur) = Inl p"
      using r True by (simp add: addTypeAttrMapping_def g fl e split: sum.splits prod.splits)
    have st: "selector_type E t sel = used_type cur" by (simp add: selector_type_def g)
    from maybeAddAttribute_Inl[OF m ok] show ?thesis unfolding st by blast
  qed
qed

lemma add_selectors_Inl:
  "add_selectors E a t sels (fis, sb) = Inl p \<Longrightarrow> types_ok E regs sb \<Longrightarrow>
   isStructPointer t = Inr True \<Longrightarrow>
   p = PError too_many_attributes \<or>
   bad_use E regs (map (\<lambda>sel. (a, selector_type E t sel)) sels) p \<or>
   (\<exists>sel \<in> set sels. bad_selector E t sel p)"
proof (induction sels arbitrary: fis sb regs)
  case Nil
  then show ?case by simp
next
  case (Cons sel sels)
  show ?case
  proof (cases "addTypeAttrMapping E sb a t sel")
    case (Inl q)
    then have "addTypeAttrMapping E sb a t sel = Inl p" using Cons.prems(1) by simp
    from addTypeAttrMapping_Inl[OF this Cons.prems(2,3)]
    show ?thesis using bad_use_extend[of E regs "[(a, selector_type E t sel)]" p] by auto
  next
    case (Inr r1)
    obtain fi sb1 where r1: "r1 = (fi, sb1)" by (cases r1)
    note A = addTypeAttrMapping_field_ok[OF Inr[unfolded r1] Cons.prems(2)]
    have 2: "add_selectors E a t sels (fis @ [fi], sb1) = Inl p"
      using Cons.prems(1) Inr r1 by simp
    from Cons.IH[OF 2 A(1) Cons.prems(3)]
    show ?thesis using bad_use_shift[of E regs "[(a, selector_type E t sel)]"] by auto
  qed
qed

lemma add_attrMappings_Inl:
  "add_attrMappings E t ams (fis, sb) = Inl p \<Longrightarrow> types_ok E regs sb \<Longrightarrow>
   isStructPointer t = Inr True \<Longrightarrow>
   p = PError too_many_attributes \<or> bad_use E regs (uses_of E t ams) p \<or>
   (\<exists>(a, sel) \<in> set (selectors_of ams). bad_selector E t sel p)"
proof (induction ams arbitrary: fis sb regs)
  case Nil
  then show ?case by simp
next
  case (Cons am ams)
  have u: "uses_of E t (am # ams) =
      map (\<lambda>sel. (fst am, selector_type E t sel)) (snd am) @ uses_of E t ams"
    by (simp add: uses_of_def selectors_of_def comp_def)
  have s: "selectors_of (am # ams) = map (Pair (fst am)) (snd am) @ selectors_of ams"
    by (simp add: selectors_of_def)
  show ?case
  proof (cases "add_selectors E (fst am) t (snd am) (fis, sb)")
    case (Inl q)
    then have "add_selectors E (fst am) t (snd am) (fis, sb) = Inl p"
      using Cons.prems(1) by simp
    from add_selectors_Inl[OF this Cons.prems(2,3)]
    show ?thesis unfolding u s
      using bad_use_extend[of E regs "map (\<lambda>sel. (fst am, selector_type E t sel)) (snd am)" p]
      by auto
  next
    case (Inr r1)
    obtain fis1 sb1 where r1: "r1 = (fis1, sb1)" by (cases r1)
    from add_selectors_field_ok[OF Inr[unfolded r1] Cons.prems(2)]
    have t1: "types_ok E (regs @ map (\<lambda>sel. (fst am, selector_type E t sel)) (snd am)) sb1"
      by blast
    have 2: "add_attrMappings E t ams (fis1, sb1) = Inl p"
      using Cons.prems(1) Inr r1 by simp
    from Cons.IH[OF 2 t1 Cons.prems(3)]
    show ?thesis unfolding u s
      using bad_use_shift[of E regs "map (\<lambda>sel. (fst am, selector_type E t sel)) (snd am)"]
      by auto
  qed
qed

lemma maybeAddTypeMapping_Inl:
  assumes r: "maybeAddTypeMapping E sb t ams = Inl p" and ok: "types_ok E regs sb"
  shows "p = PError too_many_attributes \<or> bad_use E regs (uses_of E t ams) p \<or>
         bad_mapping E t ams p"
proof -
  obtain b where b: "isStructPointer t = Inr b" using isStructPointer_Inr by blast
  show ?thesis
  proof (cases b)
    case False
    then show ?thesis using r b by (simp add: maybeAddTypeMapping_def bad_mapping_def)
  next
    case True
    then have "add_attrMappings E t ams ([], sb) = Inl p"
      using r b by (simp add: maybeAddTypeMapping_def Let_def split: sum.splits prod.splits)
    from add_attrMappings_Inl[OF this ok] b True show ?thesis
      by (simp add: bad_mapping_def)
  qed
qed

lemma add_entityMappings_Inl:
  "add_entityMappings E tms sb = Inl p \<Longrightarrow> types_ok E regs sb \<Longrightarrow>
   p = PError too_many_attributes \<or>
   bad_use E regs (concat (map (\<lambda>tm. uses_of E (fst tm) (snd tm)) tms)) p \<or>
   (\<exists>(t, ams) \<in> set tms. bad_mapping E t ams p)"
proof (induction tms arbitrary: sb regs)
  case Nil
  then show ?case by simp
next
  case (Cons tm tms)
  show ?case
  proof (cases "maybeAddTypeMapping E sb (fst tm) (snd tm)")
    case (Inl q)
    then have "maybeAddTypeMapping E sb (fst tm) (snd tm) = Inl p" using Cons.prems(1) by simp
    from maybeAddTypeMapping_Inl[OF this Cons.prems(2)]
    show ?thesis
      using bad_use_extend[of E regs "uses_of E (fst tm) (snd tm)" p]
      by (cases tm) auto
  next
    case (Inr sb1)
    note M = maybeAddTypeMapping_entity_ok[OF Inr Cons.prems(2)]
    have 2: "add_entityMappings E tms sb1 = Inl p" using Cons.prems(1) Inr by simp
    from Cons.IH[OF 2 M(1)]
    show ?thesis using bad_use_shift[of E regs "uses_of E (fst tm) (snd tm)"] by auto
  qed
qed

lemma add_attrTypes_Inl:
  "add_attrTypes E decls sb = Inl p \<Longrightarrow> types_ok E regs sb \<Longrightarrow>
   p = PError too_many_attributes \<or> bad_use E regs decls p"
proof (induction decls arbitrary: sb regs)
  case Nil
  then show ?case by simp
next
  case (Cons d decls)
  show ?case
  proof (cases "maybeAddAttribute E sb (fst d) (snd d)")
    case (Inl q)
    then have "maybeAddAttribute E sb (fst d) (snd d) = Inl p" using Cons.prems(1) by simp
    from maybeAddAttribute_Inl[OF this Cons.prems(2)]
    show ?thesis using bad_use_extend[of E regs "[d]" p decls] by auto
  next
    case (Inr r1)
    obtain ord sb1 where r1: "r1 = (ord, sb1)" by (cases r1)
    have t1: "types_ok E (regs @ [d]) sb1"
      using maybeAddAttribute_types_ok(1)[OF Inr[unfolded r1] Cons.prems(2)] by simp
    have 2: "add_attrTypes E decls sb1 = Inl p" using Cons.prems(1) Inr r1 by simp
    from Cons.IH[OF 2 t1] show ?thesis using bad_use_shift[of E regs "[d]" decls p] by auto
  qed
qed

lemma add_reserved_Inl:
  assumes r: "add_reserved E sb = Inl p" and ok: "types_ok E regs sb"
  shows "p = PError too_many_attributes \<or>
         bad_use E regs [(Self, emptyInterfaceType), (Type, reflectTypeType)] p"
proof (cases "maybeAddAttribute E sb Self emptyInterfaceType")
  case (Inl q)
  then have "maybeAddAttribute E sb Self emptyInterfaceType = Inl p"
    using r by (simp add: add_reserved_def)
  from maybeAddAttribute_Inl[OF this ok]
  show ?thesis
    using bad_use_extend[of E regs "[(Self, emptyInterfaceType)]" p "[(Type, reflectTypeType)]"]
    by auto
next
  case (Inr r1)
  obtain o1 sb1 where r1: "r1 = (o1, sb1)" by (cases r1)
  note 1 = Inr[unfolded r1]
  have a1: "attrToOrdinal sb1 Self = Some o1"
    using 1 by (auto simp: maybeAddAttribute_def Let_def split: if_splits sum.splits option.splits)
  then have m1: "mustGetOrdinal sb1 Self = Inr o1"
    by (simp add: mustGetOrdinal_def getOrdinal_def)
  let ?sb1 = "sb1\<lparr>selfOrdinal := o1\<rparr>"
  have t1: "types_ok E (regs @ [(Self, emptyInterfaceType)]) ?sb1"
    using maybeAddAttribute_types_ok(1)[OF 1 ok] types_ok_cong[of ?sb1 sb1] by simp
  show ?thesis
  proof (cases "maybeAddAttribute E ?sb1 Type reflectTypeType")
    case (Inl q)
    then have "maybeAddAttribute E ?sb1 Type reflectTypeType = Inl p"
      using r 1 m1 by (simp add: add_reserved_def)
    from maybeAddAttribute_Inl[OF this t1]
    show ?thesis
      using bad_use_shift[of E regs "[(Self, emptyInterfaceType)]" "[(Type, reflectTypeType)]" p]
      by auto
  next
    case (Inr r2)
    obtain o2 sb2 where r2: "r2 = (o2, sb2)" by (cases r2)
    note 2 = Inr[unfolded r2]
    have a2: "attrToOrdinal sb2 Type = Some o2"
      using 2 by (auto simp: maybeAddAttribute_def Let_def split: if_splits sum.splits option.splits)
    then have m2: "mustGetOrdinal sb2 Type = Inr o2"
      by (simp add: mustGetOrdinal_def getOrdinal_def)
    show ?thesis using r 1 m1 2 m2 by (simp add: add_reserved_def)
  qed
qed

lemma buildSchema_Inl:
  assumes b: "buildSchema E n m = Inl p"
  shows "construction_failure E m p"
proof -
  let ?U = "concat (map (\<lambda>tm. uses_of E (fst tm) (snd tm)) (entityMappings m))"
  let ?R = "[(Self, emptyInterfaceType), (Type, reflectTypeType)]"
  have tr: "typed_registrations E m = attrTypes' m @ ?U @ ?R"
    by (simp add: typed_registrations_def)
  have c: "construction_failure E m p"
    if "p = PError too_many_attributes \<or> bad_use E [] (typed_registrations E m) p \<or>
        (\<exists>(t, ams) \<in> set (entityMappings m). bad_mapping E t ams p)"
    using that b buildSchema_too_many[of E n m] by (auto simp: construction_failure_def)
  show ?thesis
  proof (cases "add_attrTypes E (attrTypes' m) (new_Schema n)")
    case (Inl q)
    then have "add_attrTypes E (attrTypes' m) (new_Schema n) = Inl p"
      using b by (simp add: buildSchema_def)
    from add_attrTypes_Inl[OF this types_ok_new]
    show ?thesis
      using bad_use_extend[of E "[]" "attrTypes' m" p "?U @ ?R"] c unfolding tr by auto
  next
    case (Inr sb1)
    have t1: "types_ok E (attrTypes' m) sb1"
      using add_attrTypes_types_ok[OF Inr types_ok_new] by simp
    show ?thesis
    proof (cases "add_entityMappings E (entityMappings m) sb1")
      case (Inl q)
      then have "add_entityMappings E (entityMappings m) sb1 = Inl p"
        using b Inr by (simp add: buildSchema_def)
      from add_entityMappings_Inl[OF this t1]
      show ?thesis
        using bad_use_shift[of E "[]" "attrTypes' m" ?U p]
          bad_use_extend[of E "[]" "attrTypes' m @ ?U" p ?R] c unfolding tr by auto
    next
      case 2: (Inr sb2)
      from add_entityMappings_entity_ok[OF 2 t1]
      have t2: "types_ok E (attrTypes' m @ ?U) sb2" by blast
      show ?thesis
      proof (cases "add_reserved E sb2")
        case (Inl q)
        then have "add_reserved E sb2 = Inl p" using b Inr 2 by (simp add: buildSchema_def)
        from add_reserved_Inl[OF this t2]
        show ?thesis
          using bad_use_shift[of E "[]" "attrTypes' m @ ?U" ?R p] c unfolding tr by auto
      next
        case 3: (Inr sb3)
        have ok3: "ents_ok sb3"
          using add_reserved_step(2)[OF 3] add_entityMappings_ents_ok[OF 2]
            ents_ok_same_entities[OF conjunct2[OF add_attrTypes_step[OF Inr]] ents_ok_new]
          by blast
        from sort_Sort_ok[OF ok3, of E] obtain sc where "sort_Sort E sb3 = Inr sc" by blast
        then show ?thesis using b Inr 2 3 by (simp add: buildSchema_def)
      qed
    qed
  qed
qed

section \<open>The type that a field use registers\<close>

lemma addTypeAttrMapping_supported:
  assumes g: "getOffsetAndTypeFromSelector E t sel = Inr (off, cur)" and s: "supported cur"
  shows "\<exists>flags. makeFieldFlags cur = Inr (flags, True) \<and>
     addTypeAttrMapping E sb a t sel =
       (case maybeAddAttribute E sb a (used_type cur) of
          Inl p \<Rightarrow> Inl p
        | Inr (ord, sb') \<Rightarrow>
            Inr (\<lparr>path = sel, field_typ = used_type cur, attr = ord,
                  comparableValue = comparableValue_block flags cur (used_type cur) off,
                  value' = value_block flags cur off,
                  inline = inline_block flags cur off,
                  fieldFlags = flags\<rparr>, sb'))"
proof -
  obtain flags ok' where fl: "makeFieldFlags cur = Inr (flags, ok')"
    using makeFieldFlags_Inr by blast
  note S = makeFieldFlags_supported[OF fl]
  have t: "ok'" using S(1) s by simp
  have e: "(if isPtr flags \<and> isScalar flags then Elem cur else Inr cur) = Inr (used_type cur)"
    using S(2) t by simp
  have "addTypeAttrMapping E sb a t sel =
       (case maybeAddAttribute E sb a (used_type cur) of
          Inl p \<Rightarrow> Inl p
        | Inr (ord, sb') \<Rightarrow>
            Inr (\<lparr>path = sel, field_typ = used_type cur, attr = ord,
                  comparableValue = comparableValue_block flags cur (used_type cur) off,
                  value' = value_block flags cur off,
                  inline = inline_block flags cur off,
                  fieldFlags = flags\<rparr>, sb'))"
    using t by (simp add: addTypeAttrMapping_def g fl e)
  then show ?thesis using fl t by auto
qed

lemma addTypeAttrMapping_old:
  assumes ok: "attrs_ok sb" and a: "attrToOrdinal sb a = Some ord"
    and g: "getOffsetAndTypeFromSelector E t sel = Inr (off, cur)" and s: "supported cur"
  shows "fits E (used_type cur) (attrTypes sb ! ord) \<Longrightarrow>
           \<exists>f. addTypeAttrMapping E sb a t sel = Inr (f, sb) \<and> attr f = ord \<and>
               field_typ f = used_type cur"
    and "\<not> fits E (used_type cur) (attrTypes sb ! ord) \<Longrightarrow>
           addTypeAttrMapping E sb a t sel =
             Inl (PError (type_mismatch_for (mismatch (used_type cur) (attrTypes sb ! ord)) a))"
proof -
  have "ord < length (attrs sb)" using attrs_ok_lookup[OF ok, of a ord] a by simp
  then have o: "ord < length (attrTypes sb)" using ok by (simp add: attrs_ok_def)
  note m = maybeAddAttribute_old[OF a o, of E "used_type cur", unfolded checkType_fits]
  from addTypeAttrMapping_supported[OF g s, of sb a] obtain flags where
    A: "addTypeAttrMapping E sb a t sel =
       (case maybeAddAttribute E sb a (used_type cur) of
          Inl p \<Rightarrow> Inl p
        | Inr (ord, sb') \<Rightarrow>
            Inr (\<lparr>path = sel, field_typ = used_type cur, attr = ord,
                  comparableValue = comparableValue_block flags cur (used_type cur) off,
                  value' = value_block flags cur off,
                  inline = inline_block flags cur off,
                  fieldFlags = flags\<rparr>, sb'))" by blast
  show "\<exists>f. addTypeAttrMapping E sb a t sel = Inr (f, sb) \<and> attr f = ord \<and>
               field_typ f = used_type cur"
    if "fits E (used_type cur) (attrTypes sb ! ord)"
    using that by (simp add: A m)
  show "addTypeAttrMapping E sb a t sel =
             Inl (PError (type_mismatch_for (mismatch (used_type cur) (attrTypes sb ! ord)) a))"
    if "\<not> fits E (used_type cur) (attrTypes sb ! ord)"
    using that by (simp add: A m)
qed

lemma addTypeAttrMapping_new:
  assumes ok: "attrs_ok sb" and a: "attrToOrdinal sb a = None"
    and l: "length (attrs sb) < maxUserAttribute E"
    and g: "getOffsetAndTypeFromSelector E t sel = Inr (off, cur)" and s: "supported cur"
  shows "\<exists>f sb'. addTypeAttrMapping E sb a t sel = Inr (f, sb') \<and> attr f = length (attrs sb) \<and>
           field_typ f = used_type cur \<and> attrToOrdinal sb' a = Some (length (attrs sb)) \<and>
           attrTypes sb' ! length (attrs sb) = used_type cur"
proof -
  have len: "length (attrTypes sb) = length (attrs sb)" using ok by (simp add: attrs_ok_def)
  from addTypeAttrMapping_supported[OF g s, of sb a] obtain flags where
    A: "addTypeAttrMapping E sb a t sel =
       (case maybeAddAttribute E sb a (used_type cur) of
          Inl p \<Rightarrow> Inl p
        | Inr (ord, sb') \<Rightarrow>
            Inr (\<lparr>path = sel, field_typ = used_type cur, attr = ord,
                  comparableValue = comparableValue_block flags cur (used_type cur) off,
                  value' = value_block flags cur off,
                  inline = inline_block flags cur off,
                  fieldFlags = flags\<rparr>, sb'))" by blast
  show ?thesis using l len[symmetric] by (simp add: A maybeAddAttribute_new[OF a])
qed

lemma types_ok_fixed:
  assumes ok: "types_ok E regs sb" and ma: "map_of regs a = Some fixed"
  shows "\<exists>ord. attrToOrdinal sb a = Some ord \<and> attrTypes sb ! ord = fixed"
proof -
  have "a \<in> fst ` set regs" using ma by (metis map_of_eq_None_iff option.simps(3))
  then have "a \<in> dom (attrToOrdinal sb)" using ok by (simp add: types_ok_def attrs_ok_def)
  then obtain ord where o: "attrToOrdinal sb a = Some ord" by blast
  then have "map_of regs a = Some (attrTypes sb ! ord)" using ok unfolding types_ok_def by blast
  then show ?thesis using o ma by simp
qed

lemma add_entityMappings_bad_first:
  assumes ok: "types_ok E regs sb" and ma: "map_of regs a = Some fixed"
    and nf: "\<not> fits E (used_type cur) fixed"
    and g: "getOffsetAndTypeFromSelector E (PtrTo (StructOf sn fs)) sel = Inr (off, cur)"
    and s: "supported cur"
  shows "add_entityMappings E ((PtrTo (StructOf sn fs), (a, sel # sels) # ams) # tms) sb =
           Inl (PError (type_mismatch_for (mismatch (used_type cur) fixed) a))"
proof -
  from types_ok_fixed[OF ok ma] obtain ord where
    o: "attrToOrdinal sb a = Some ord" and f: "attrTypes sb ! ord = fixed" by blast
  have aok: "attrs_ok sb" using ok by (simp add: types_ok_def)
  have "addTypeAttrMapping E sb a (PtrTo (StructOf sn fs)) sel =
          Inl (PError (type_mismatch_for (mismatch (used_type cur) fixed) a))"
    using addTypeAttrMapping_old(2)[OF aok o g s] nf f by simp
  then show ?thesis by (simp add: maybeAddTypeMapping_def isStructPointer_def)
qed

lemma NewSchema_declared_then_used:
  assumes mx: "0 < maxUserAttribute E"
    and g: "getOffsetAndTypeFromSelector E (PtrTo (StructOf sn fs)) sel = Inr (off, cur)"
    and s: "supported cur" and nf: "\<not> fits E (used_type cur) prev"
  shows "NewSchema E n \<lparr>attrTypes' = [(a, prev)],
             entityMappings = (PtrTo (StructOf sn fs), (a, sel # sels) # ams) # tms\<rparr> =
           (None, Some (failed_to_construct_schema
                          (type_mismatch_for (mismatch (used_type cur) prev) a)))"
proof -
  obtain sb1 where 1: "add_attrTypes E [(a, prev)] (new_Schema n) = Inr sb1"
    using mx by (simp add: maybeAddAttribute_def new_Schema_def)
  have t1: "types_ok E [(a, prev)] sb1"
    using add_attrTypes_types_ok[OF 1 types_ok_new] by simp
  have "map_of [(a, prev)] a = Some prev" by simp
  from add_entityMappings_bad_first[OF t1 this nf g s, of sels ams tms]
  show ?thesis
    by (simp add: NewSchema_def buildSchema_def 1
        del: add_attrTypes.simps add_entityMappings.simps)
qed

lemma NewSchema_used_twice:
  assumes mx: "0 < maxUserAttribute E"
    and g1: "getOffsetAndTypeFromSelector E (PtrTo (StructOf n1 fs1)) sel1 = Inr (off1, cur1)"
    and s1: "supported cur1"
    and g2: "getOffsetAndTypeFromSelector E (PtrTo (StructOf n2 fs2)) sel2 = Inr (off2, cur2)"
    and s2: "supported cur2" and nf: "\<not> fits E (used_type cur2) (used_type cur1)"
  shows "NewSchema E n \<lparr>attrTypes' = [],
             entityMappings = (PtrTo (StructOf n1 fs1), [(a, [sel1])]) #
                              (PtrTo (StructOf n2 fs2), (a, sel2 # sels) # ams) # tms\<rparr> =
           (None, Some (failed_to_construct_schema
                          (type_mismatch_for (mismatch (used_type cur2) (used_type cur1)) a)))"
proof -
  let ?t1 = "PtrTo (StructOf n1 fs1)"
  have a0: "attrToOrdinal (new_Schema n) a = None" "length (attrs (new_Schema n)) < maxUserAttribute E"
    using mx by (simp_all add: new_Schema_def)
  from addTypeAttrMapping_new[OF attrs_ok_new a0 g1 s1] obtain f sb0 where
    A: "addTypeAttrMapping E (new_Schema n) a ?t1 sel1 = Inr (f, sb0)" by blast
  obtain sb1 where 1: "maybeAddTypeMapping E (new_Schema n) ?t1 [(a, [sel1])] = Inr sb1"
    by (simp add: maybeAddTypeMapping_def isStructPointer_def A Let_def)
  have u: "uses_of E ?t1 [(a, [sel1])] = [(a, used_type cur1)]"
    by (simp add: uses_of_def selectors_of_def selector_type_def g1)
  have t1: "types_ok E [(a, used_type cur1)] sb1"
    using maybeAddTypeMapping_entity_ok(1)[OF 1 types_ok_new] by (simp add: u)
  have "map_of [(a, used_type cur1)] a = Some (used_type cur1)" by simp
  from add_entityMappings_bad_first[OF t1 this nf g2 s2, of sels ams tms]
  have "add_entityMappings E ((?t1, [(a, [sel1])]) #
          (PtrTo (StructOf n2 fs2), (a, sel2 # sels) # ams) # tms) (new_Schema n) =
        Inl (PError (type_mismatch_for (mismatch (used_type cur2) (used_type cur1)) a))"
    by (simp add: 1)
  then show ?thesis
    by (simp add: NewSchema_def buildSchema_def del: add_entityMappings.simps)
qed

lemma buildSchema_types_fixed:
  assumes b: "buildSchema E n m = Inr sc"
  shows "types_ok E (typed_registrations E m) sc"
  using buildSchema_built[OF b] by (simp add: built_from_def)

lemma buildSchema_mismatch:
  assumes b: "buildSchema E n m = Inl (PError (type_mismatch_for e a))"
  shows "bad_use E [] (typed_registrations E m) (PError (type_mismatch_for e a))"
proof -
  from buildSchema_Inl[OF b] show ?thesis
    by (auto simp: construction_failure_def bad_mapping_def bad_selector_def)
qed

section \<open>The claims\<close>

text \<open>
  C1 (as amended). Take two sets of mappings that register the same record types, each
  record type once, in any two orders, and an order \<^verbatim>\<open>compareTypes\<close> that is strict and
  total on these types. If both build, every record type has the same rank in the two
  schemas: the number of registered types that are less than it. And the ranks of a
  schema so built are exactly \<open>0, ..., T - 1\<close>, \<open>T\<close> the number of registered record types.
  (A record type that is registered twice breaks both: the counterexample.)
\<close>

theorem rank_determinism:
  assumes "buildSchema E n m = Inr sc" and "buildSchema E n' m' = Inr sc'"
    and "distinct (map fst (entityMappings m))" and "distinct (map fst (entityMappings m'))"
    and "fst ` set (entityMappings m') = fst ` set (entityMappings m)"
    and "strict_linear_on (fst ` set (entityMappings m)) (type_less E)"
  shows "(\<forall>t\<in>fst ` set (entityMappings m).
            typeRank sc t = typeRank sc' t \<and>
            typeRank sc t = Some (card {t' \<in> fst ` set (entityMappings m). type_less E t' t})) \<and>
         typeRank sc ` fst ` set (entityMappings m)
           = Some ` {0..<card (fst ` set (entityMappings m))} \<and>
         card (fst ` set (entityMappings m)) = length (entityMappings m)"
proof (intro conjI ballI)
  fix t assume t: "t \<in> fst ` set (entityMappings m)"
  have lin': "strict_linear_on (fst ` set (entityMappings m')) (type_less E)"
    using assms(5,6) by simp
  have t': "t \<in> fst ` set (entityMappings m')" using t assms(5) by simp
  show "typeRank sc t = Some (card {t' \<in> fst ` set (entityMappings m). type_less E t' t})"
    using ranks_registered_once[OF assms(1,3,6) t] .
  then show "typeRank sc t = typeRank sc' t"
    using ranks_registered_once[OF assms(2,4) lin' t'] assms(5) by simp
next
  show "typeRank sc ` fst ` set (entityMappings m)
           = Some ` {0..<card (fst ` set (entityMappings m))}"
    using ranks_contiguous_registered_once[OF assms(1,3,6)] .
next
  show "card (fst ` set (entityMappings m)) = length (entityMappings m)"
    using distinct_card[OF assms(3)] by simp
qed

theorem rank_determinism_witness:
  "(case (buildSchema example_env ''s'' example_once,
          buildSchema example_env ''s'' example_once_reordered) of
      (Inr s1, Inr s2) \<Rightarrow>
         typeRank s1 (PtrTo example_optional) = Some 0 \<and>
         typeRank s2 (PtrTo example_optional) = Some 0 \<and>
         typeRank s1 (PtrTo example_plain) = Some 1 \<and>
         typeRank s2 (PtrTo example_plain) = Some 1
    | _ \<Rightarrow> False)"
proof -
  let ?P = "PtrTo example_plain" and ?O = "PtrTo example_optional"
  have k: "scalar_kind (Kind int64_type)"
    by (simp add: scalar_kind_def int64_type_def isIntKind_def)
  have mx: "3 \<le> maxUserAttribute example_env" by (simp add: example_env_def)
  have f1: "map_of [(''ID'', 0, int64_type)] ''ID'' = Some (0, int64_type)" by simp
  have f2: "map_of [(''Name'', 0, string_type), (''ID'', 16, PtrTo int64_type)] ''ID''
              = Some (16, PtrTo int64_type)" by simp
  have dt: "CHR ''.'' \<notin> set ''ID''" by simp
  from buildSchema_two_fields[OF k f1 dt _ f2 dt _ mx, of "''s''" "''Plain''" "''id''" "''Optional''"]
  obtain s1 where b1: "buildSchema example_env ''s'' example_once = Inr s1"
    by (auto simp: example_once_def example_plain_def example_optional_def)
  from buildSchema_two_fields[OF k f2 dt _ f1 dt _ mx, of "''s''" "''Optional''" "''id''" "''Plain''"]
  obtain s2 where b2: "buildSchema example_env ''s'' example_once_reordered = Inr s2"
    by (auto simp: example_once_reordered_def example_plain_def example_optional_def)
  have S: "fst ` set (entityMappings example_once) = {?P, ?O}"
    and S': "fst ` set (entityMappings example_once_reordered) = fst ` set (entityMappings example_once)"
    by (auto simp: example_once_def example_once_reordered_def)
  have d1: "distinct (map fst (entityMappings example_once))"
    and d2: "distinct (map fst (entityMappings example_once_reordered))"
    using example_types_differ by (auto simp: example_once_def example_once_reordered_def)
  have lin: "strict_linear_on (fst ` set (entityMappings example_once)) (type_less example_env)"
    unfolding S strict_linear_on_def using example_type_less by auto
  note R = rank_determinism[OF b1 b2 d1 d2 S' lin, THEN conjunct1]
  have cO: "{t' \<in> {?P, ?O}. type_less example_env t' ?O} = {}"
    using example_type_less by auto
  have cP: "{t' \<in> {?P, ?O}. type_less example_env t' ?P} = {?O}"
    using example_type_less by auto
  have mO: "?O \<in> {?P, ?O}" and mP: "?P \<in> {?P, ?O}" by simp_all
  have rO: "typeRank s1 ?O = Some 0 \<and> typeRank s2 ?O = Some 0"
    using R[unfolded S, THEN bspec, OF mO] unfolding cO by auto
  have rP: "typeRank s1 ?P = Some 1 \<and> typeRank s2 ?P = Some 1"
    using R[unfolded S, THEN bspec, OF mP] unfolding cP by auto
  show ?thesis unfolding b1 b2 using rO rP by simp
qed

text \<open>
  The claim C1 as it is written fails when a record type is registered twice: \<^verbatim>\<open>Len\<close> is
  the length of the map \<^verbatim>\<open>entityTypeSchemas\<close>, which has one entry for each record type,
  and \<^verbatim>\<open>Less\<close> and \<^verbatim>\<open>Swap\<close> index the slice \<^verbatim>\<open>entityTypes\<close>, which has one entry for each
  registration, so that only a prefix of the slice is sorted. The same three mappings in
  two orders give the record types different ranks, and ranks that are not \<open>0, 1\<close>.
\<close>

theorem type_rank_depends_on_order:
  "set (entityMappings example_twice) = set (entityMappings example_twice_reordered) \<and>
   (case (buildSchema example_env ''s'' example_twice,
          buildSchema example_env ''s'' example_twice_reordered) of
      (Inr s1, Inr s2) \<Rightarrow>
         typeRank s1 (PtrTo example_optional) = Some 2 \<and>
         typeRank s2 (PtrTo example_optional) = Some 0 \<and>
         typeRank s1 (PtrTo example_plain) = Some 1 \<and>
         typeRank s2 (PtrTo example_plain) = Some 2
    | _ \<Rightarrow> False)"
  by (simp add: build_simps entity_simps typeRank_def example_env_def example_twice_def
      example_twice_reordered_def example_plain_def example_optional_def int64_type_def
      string_type_def insert_commute)

text \<open>
  C2. In every schema that \<^verbatim>\<open>buildSchema\<close> returns, the attributes with an ordinal are
  exactly the attributes registered; the ordinals assigned are exactly \<open>0, ..., |A| - 1\<close>,
  no two attributes sharing one; the ordinal of an attribute is the number of distinct
  attributes registered before its first registration, so that it is assigned at the
  first registration, in registration order, and a later registration of the attribute
  does not change it; and \<^verbatim>\<open>attrs\<close> lists the attributes by ordinal.
\<close>

theorem ordinal_density:
  assumes "buildSchema E n m = Inr sc"
  shows "dom (attrToOrdinal sc) = set (registrations m) \<and>
         ran (attrToOrdinal sc) = {0..<card (dom (attrToOrdinal sc))} \<and>
         inj_on (attrToOrdinal sc) (dom (attrToOrdinal sc)) \<and>
         (\<forall>a\<in>set (registrations m).
            attrToOrdinal sc a = Some (card (set (takeWhile (\<lambda>x. x \<noteq> a) (registrations m))))) \<and>
         (\<forall>a i. attrToOrdinal sc a = Some i \<longleftrightarrow> i < length (attrs sc) \<and> attrs sc ! i = a)"
proof -
  note b = buildSchema_Inr[OF assms]
  have ok: "attrs_ok sc" using b(1) by (simp add: valid_schema_def)
  have d: "distinct (attrs sc)" and dm: "dom (attrToOrdinal sc) = set (attrs sc)"
    using ok by (simp_all add: attrs_ok_def)
  have s: "set (attrs sc) = set (registrations m)"
    unfolding b(2) by (simp add: foldl_register_set)
  have lk: "\<And>a i. attrToOrdinal sc a = Some i \<longleftrightarrow> i < length (attrs sc) \<and> attrs sc ! i = a"
    using attrs_ok_lookup[OF ok] .
  have c: "card (dom (attrToOrdinal sc)) = length (attrs sc)"
    using d dm by (simp add: distinct_card)
  have r: "ran (attrToOrdinal sc) = {0..<length (attrs sc)}"
    unfolding ran_def using lk by auto
  have i: "inj_on (attrToOrdinal sc) (dom (attrToOrdinal sc))"
  proof (rule inj_onI)
    fix x y assume "x \<in> dom (attrToOrdinal sc)" "y \<in> dom (attrToOrdinal sc)"
      "attrToOrdinal sc x = attrToOrdinal sc y"
    then obtain i where "attrToOrdinal sc x = Some i" "attrToOrdinal sc y = Some i" by auto
    then show "x = y" using lk[of x i] lk[of y i] by simp
  qed
  have f: "\<forall>a\<in>set (registrations m).
            attrToOrdinal sc a = Some (card (set (takeWhile (\<lambda>x. x \<noteq> a) (registrations m))))"
  proof
    fix a assume "a \<in> set (registrations m)"
    from foldl_register_index[OF this] show
      "attrToOrdinal sc a = Some (card (set (takeWhile (\<lambda>x. x \<noteq> a) (registrations m))))"
      using lk[of a "card (set (takeWhile (\<lambda>x. x \<noteq> a) (registrations m)))"] b(2) by simp
  qed
  have 1: "dom (attrToOrdinal sc) = set (registrations m)" using dm s by simp
  have 2: "ran (attrToOrdinal sc) = {0..<card (dom (attrToOrdinal sc))}" using r c by simp
  have 3: "\<forall>a i. attrToOrdinal sc a = Some i \<longleftrightarrow> i < length (attrs sc) \<and> attrs sc ! i = a"
    by (intro allI) (rule lk)
  show ?thesis by (intro conjI 1 2 i f 3)
qed

theorem ordinal_density_witness:
  "(case buildSchema example_env ''s'' example_declarations of
      Inr sc \<Rightarrow> ran (attrToOrdinal sc) = {0..<4} \<and> attrToOrdinal sc (User ''b'') = Some 1 \<and>
                 attrToOrdinal sc (User ''a'') = Some 0
    | Inl p \<Rightarrow> False)"
proof -
  obtain sc where b: "buildSchema example_env ''s'' example_declarations = Inr sc"
    by (simp add: build_simps example_env_def example_declarations_def int64_type_def string_type_def)
  have r: "registrations example_declarations = [User ''a'', User ''b'', User ''a'', Self, Type]"
    by (simp add: registrations_def caller_registrations_def example_declarations_def)
  have c: "card (set (registrations example_declarations)) = 4"
    unfolding r by (simp add: insert_commute)
  from ordinal_density[OF b] show ?thesis
    unfolding b using c r by simp
qed




text \<open>
  C4 (as amended). The first registration of an attribute fixes its type: the type is
  stored at the attribute's new ordinal, and no later registration, of this or of another
  attribute, changes the type stored at an ordinal. A later registration of the attribute
  with the type \<open>typ\<close> succeeds, leaving the schema as it is, exactly when \<open>typ\<close> is the fixed
  type, or the fixed type is an interface that \<open>typ\<close> implements; otherwise it panics with an
  error that names the attribute and both types. The type that the use of an attribute on a
  field registers is the type of the field, or its element type when the field is a pointer
  to a scalar: this type is fixed by a first use and compared by a later one, on the same or
  on another record type. In a schema that is built every registration of the mappings fits
  the type of the first registration of its attribute; mappings with a registration that
  does not fit do not build; and a build that stops on a mismatch returns the error of a
  registration that does not fit, with its attribute and both types.
\<close>

theorem attribute_type_validation:
  "(attrs_ok sb \<and> attrToOrdinal sb a = None \<and> length (attrs sb) < maxUserAttribute E \<longrightarrow>
      (\<exists>sb'. maybeAddAttribute E sb a typ = Inr (length (attrs sb), sb') \<and>
             attrToOrdinal sb' a = Some (length (attrs sb)) \<and>
             attrTypes sb' ! length (attrs sb) = typ)) \<and>
   (attrs_ok sb \<and> attrToOrdinal sb a = Some ord \<longrightarrow>
      maybeAddAttribute E sb a typ =
        (if typ = attrTypes sb ! ord \<or>
            (Kind (attrTypes sb ! ord) = reflect_Interface \<and>
             Implements E typ (attrTypes sb ! ord) = Inr True)
         then Inr (ord, sb)
         else Inl (PError (type_mismatch_for
                 (if Kind (attrTypes sb ! ord) = reflect_Interface
                  then does_not_implement typ (attrTypes sb ! ord)
                  else is_not typ (attrTypes sb ! ord)) a)))) \<and>
   (attrs_ok sb \<and> maybeAddAttribute E sb a typ = Inr (ord', sb') \<longrightarrow>
      (\<forall>i<length (attrTypes sb). attrTypes sb' ! i = attrTypes sb ! i)) \<and>
   (0 < maxUserAttribute E \<and>
    \<not> (typ = prev \<or> (Kind prev = reflect_Interface \<and> Implements E typ prev = Inr True)) \<longrightarrow>
      NewSchema E n \<lparr>attrTypes' = [(a, prev), (a, typ)], entityMappings = []\<rparr> =
        (None, Some (failed_to_construct_schema (type_mismatch_for
           (if Kind prev = reflect_Interface then does_not_implement typ prev
            else is_not typ prev) a)))) \<and>
   (attrs_ok sb \<and> attrToOrdinal sb a = None \<and> length (attrs sb) < maxUserAttribute E \<and>
    getOffsetAndTypeFromSelector E t sel = Inr (off, cur) \<and> supported cur \<longrightarrow>
      (\<exists>f sb'. addTypeAttrMapping E sb a t sel = Inr (f, sb') \<and> attr f = length (attrs sb) \<and>
           field_typ f = used_type cur \<and> attrToOrdinal sb' a = Some (length (attrs sb)) \<and>
           attrTypes sb' ! length (attrs sb) = used_type cur)) \<and>
   (attrs_ok sb \<and> attrToOrdinal sb a = Some ord \<and>
    getOffsetAndTypeFromSelector E t sel = Inr (off, cur) \<and> supported cur \<longrightarrow>
      (fits E (used_type cur) (attrTypes sb ! ord) \<longrightarrow>
         (\<exists>f. addTypeAttrMapping E sb a t sel = Inr (f, sb) \<and> attr f = ord \<and>
              field_typ f = used_type cur)) \<and>
      (\<not> fits E (used_type cur) (attrTypes sb ! ord) \<longrightarrow>
         addTypeAttrMapping E sb a t sel =
           Inl (PError (type_mismatch_for (mismatch (used_type cur) (attrTypes sb ! ord)) a)))) \<and>
   (0 < maxUserAttribute E \<and>
    getOffsetAndTypeFromSelector E (PtrTo (StructOf sn fs)) sel = Inr (off, cur) \<and>
    supported cur \<and> \<not> fits E (used_type cur) prev \<longrightarrow>
      NewSchema E n \<lparr>attrTypes' = [(a, prev)],
          entityMappings = (PtrTo (StructOf sn fs), (a, sel # sels) # ams) # tms\<rparr> =
        (None, Some (failed_to_construct_schema
                       (type_mismatch_for (mismatch (used_type cur) prev) a)))) \<and>
   (0 < maxUserAttribute E \<and>
    getOffsetAndTypeFromSelector E (PtrTo (StructOf sn fs)) sel = Inr (off, cur) \<and>
    supported cur \<and>
    getOffsetAndTypeFromSelector E (PtrTo (StructOf sn2 fs2)) sel2 = Inr (off2, cur2) \<and>
    supported cur2 \<and> \<not> fits E (used_type cur2) (used_type cur) \<longrightarrow>
      NewSchema E n \<lparr>attrTypes' = [],
          entityMappings = (PtrTo (StructOf sn fs), [(a, [sel])]) #
                           (PtrTo (StructOf sn2 fs2), (a, sel2 # sels) # ams) # tms\<rparr> =
        (None, Some (failed_to_construct_schema
                       (type_mismatch_for (mismatch (used_type cur2) (used_type cur)) a)))) \<and>
   (buildSchema E n m = Inr sc \<longrightarrow>
      (\<forall>b i. attrToOrdinal sc b = Some i \<longrightarrow>
         map_of (typed_registrations E m) b = Some (attrTypes sc ! i)) \<and>
      (\<forall>(b, ty) \<in> set (typed_registrations E m).
         \<exists>fixed. map_of (typed_registrations E m) b = Some fixed \<and> fits E ty fixed)) \<and>
   (typed_registrations E m = pre @ (a, typ) # post \<and> map_of pre a = Some prev \<and>
    \<not> fits E typ prev \<longrightarrow> (\<exists>p. buildSchema E n m = Inl p)) \<and>
   (buildSchema E n m = Inl (PError (type_mismatch_for e a)) \<longrightarrow>
      (\<exists>pre ty post fixed.
         typed_registrations E m = pre @ (a, ty) # post \<and> map_of pre a = Some fixed \<and>
         \<not> fits E ty fixed \<and> e = mismatch ty fixed))"
proof (intro conjI impI)
  assume h: "attrs_ok sb \<and> attrToOrdinal sb a = None \<and> length (attrs sb) < maxUserAttribute E"
  then have "length (attrTypes sb) = length (attrs sb)" by (simp add: attrs_ok_def)
  then show "\<exists>sb'. maybeAddAttribute E sb a typ = Inr (length (attrs sb), sb') \<and>
             attrToOrdinal sb' a = Some (length (attrs sb)) \<and>
             attrTypes sb' ! length (attrs sb) = typ"
    using h by (simp add: maybeAddAttribute_new nth_append)
next
  assume h: "attrs_ok sb \<and> attrToOrdinal sb a = Some ord"
  then have "ord < length (attrs sb)" using attrs_ok_lookup[of sb a ord] by simp
  then have o: "ord < length (attrTypes sb)" using h by (simp add: attrs_ok_def)
  show "maybeAddAttribute E sb a typ =
        (if typ = attrTypes sb ! ord \<or>
            (Kind (attrTypes sb ! ord) = reflect_Interface \<and>
             Implements E typ (attrTypes sb ! ord) = Inr True)
         then Inr (ord, sb)
         else Inl (PError (type_mismatch_for
                 (if Kind (attrTypes sb ! ord) = reflect_Interface
                  then does_not_implement typ (attrTypes sb ! ord)
                  else is_not typ (attrTypes sb ! ord)) a)))"
    using h o by (simp add: maybeAddAttribute_old checkType_eq)
next
  assume h: "attrs_ok sb \<and> maybeAddAttribute E sb a typ = Inr (ord', sb')"
  then have t: "take (length (attrTypes sb)) (attrTypes sb') = attrTypes sb"
    using maybeAddAttribute_ok(4) by blast
  show "\<forall>i<length (attrTypes sb). attrTypes sb' ! i = attrTypes sb ! i"
  proof (intro allI impI)
    fix i assume "i < length (attrTypes sb)"
    then show "attrTypes sb' ! i = attrTypes sb ! i"
      using nth_take[of i "length (attrTypes sb)" "attrTypes sb'"] t by simp
  qed
next
  assume "0 < maxUserAttribute E \<and>
    \<not> (typ = prev \<or> (Kind prev = reflect_Interface \<and> Implements E typ prev = Inr True))"
  then show "NewSchema E n \<lparr>attrTypes' = [(a, prev), (a, typ)], entityMappings = []\<rparr> =
        (None, Some (failed_to_construct_schema (type_mismatch_for
           (if Kind prev = reflect_Interface then does_not_implement typ prev
            else is_not typ prev) a)))"
    using NewSchema_redeclared by blast
next
  assume "attrs_ok sb \<and> attrToOrdinal sb a = None \<and> length (attrs sb) < maxUserAttribute E \<and>
    getOffsetAndTypeFromSelector E t sel = Inr (off, cur) \<and> supported cur"
  then show "\<exists>f sb'. addTypeAttrMapping E sb a t sel = Inr (f, sb') \<and> attr f = length (attrs sb) \<and>
           field_typ f = used_type cur \<and> attrToOrdinal sb' a = Some (length (attrs sb)) \<and>
           attrTypes sb' ! length (attrs sb) = used_type cur"
    using addTypeAttrMapping_new by blast
next
  assume h: "attrs_ok sb \<and> attrToOrdinal sb a = Some ord \<and>
    getOffsetAndTypeFromSelector E t sel = Inr (off, cur) \<and> supported cur"
  show "\<exists>f. addTypeAttrMapping E sb a t sel = Inr (f, sb) \<and> attr f = ord \<and>
              field_typ f = used_type cur"
    if "fits E (used_type cur) (attrTypes sb ! ord)"
    using addTypeAttrMapping_old(1)[of sb a ord E t sel off cur] h that by blast
  show "addTypeAttrMapping E sb a t sel =
           Inl (PError (type_mismatch_for (mismatch (used_type cur) (attrTypes sb ! ord)) a))"
    if "\<not> fits E (used_type cur) (attrTypes sb ! ord)"
    using addTypeAttrMapping_old(2)[of sb a ord E t sel off cur] h that by blast
next
  assume "0 < maxUserAttribute E \<and>
    getOffsetAndTypeFromSelector E (PtrTo (StructOf sn fs)) sel = Inr (off, cur) \<and>
    supported cur \<and> \<not> fits E (used_type cur) prev"
  then show "NewSchema E n \<lparr>attrTypes' = [(a, prev)],
          entityMappings = (PtrTo (StructOf sn fs), (a, sel # sels) # ams) # tms\<rparr> =
        (None, Some (failed_to_construct_schema
                       (type_mismatch_for (mismatch (used_type cur) prev) a)))"
    using NewSchema_declared_then_used by blast
next
  assume "0 < maxUserAttribute E \<and>
    getOffsetAndTypeFromSelector E (PtrTo (StructOf sn fs)) sel = Inr (off, cur) \<and>
    supported cur \<and>
    getOffsetAndTypeFromSelector E (PtrTo (StructOf sn2 fs2)) sel2 = Inr (off2, cur2) \<and>
    supported cur2 \<and> \<not> fits E (used_type cur2) (used_type cur)"
  then show "NewSchema E n \<lparr>attrTypes' = [],
          entityMappings = (PtrTo (StructOf sn fs), [(a, [sel])]) #
                           (PtrTo (StructOf sn2 fs2), (a, sel2 # sels) # ams) # tms\<rparr> =
        (None, Some (failed_to_construct_schema
                       (type_mismatch_for (mismatch (used_type cur2) (used_type cur)) a)))"
    using NewSchema_used_twice by blast
next
  assume b: "buildSchema E n m = Inr sc"
  note T = buildSchema_types_fixed[OF b]
  show "\<forall>b i. attrToOrdinal sc b = Some i \<longrightarrow>
         map_of (typed_registrations E m) b = Some (attrTypes sc ! i)"
    using T unfolding types_ok_def by blast
  show "\<forall>(b, ty) \<in> set (typed_registrations E m).
         \<exists>fixed. map_of (typed_registrations E m) b = Some fixed \<and> fits E ty fixed"
    using T unfolding types_ok_def by blast
next
  assume h: "typed_registrations E m = pre @ (a, typ) # post \<and> map_of pre a = Some prev \<and>
    \<not> fits E typ prev"
  show "\<exists>p. buildSchema E n m = Inl p"
  proof (cases "buildSchema E n m")
    case (Inl p)
    then show ?thesis by blast
  next
    case (Inr sc)
    note T = buildSchema_types_fixed[OF Inr]
    have "(a, typ) \<in> set (typed_registrations E m)" using h by simp
    then obtain fixed where f: "map_of (typed_registrations E m) a = Some fixed"
      "fits E typ fixed" using T unfolding types_ok_def by fastforce
    have "map_of (typed_registrations E m) a = Some prev"
      using h by (simp add: map_add_def)
    then show ?thesis using f h by simp
  qed
next
  assume b: "buildSchema E n m = Inl (PError (type_mismatch_for e a))"
  from buildSchema_mismatch[OF b]
  show "\<exists>pre ty post fixed.
         typed_registrations E m = pre @ (a, ty) # post \<and> map_of pre a = Some fixed \<and>
         \<not> fits E ty fixed \<and> e = mismatch ty fixed"
    unfolding bad_use_def by auto
qed

theorem attribute_type_validation_witness:
  "maybeAddAttribute example_env example_table (User ''any'') string_type
     = Inr (0, example_table) \<and>
   maybeAddAttribute example_env example_table (User ''id'') string_type
     = Inl (PError (type_mismatch_for (is_not string_type int64_type) (User ''id''))) \<and>
   (\<exists>f. addTypeAttrMapping example_env example_table (User ''id'') (PtrTo example_optional) ''ID''
          = Inr (f, example_table) \<and> attr f = 1 \<and> field_typ f = int64_type) \<and>
   addTypeAttrMapping example_env example_table (User ''id'') (PtrTo example_optional) ''Name''
     = Inl (PError (type_mismatch_for (is_not string_type int64_type) (User ''id''))) \<and>
   NewSchema example_env ''s''
       \<lparr>attrTypes' = [(User ''id'', string_type)],
        entityMappings = [(PtrTo example_plain, [(User ''id'', [''ID''])])]\<rparr>
     = (None, Some (failed_to_construct_schema
                      (type_mismatch_for (is_not int64_type string_type) (User ''id'')))) \<and>
   NewSchema example_env ''s'' example_mismatch
     = (None, Some (failed_to_construct_schema
                      (type_mismatch_for (is_not string_type int64_type) (User ''id''))))"
proof -
  have a0: "attrToOrdinal example_table (User ''any'') = Some 0"
    and a1: "attrToOrdinal example_table (User ''id'') = Some 1"
    and t: "attrTypes example_table = [emptyInterfaceType, int64_type]"
    by (simp_all add: example_table_def)
  note ok = attrs_ok_example_table
  have mx: "0 < maxUserAttribute example_env" by (simp add: example_env_def)
  have gI: "getOffsetAndTypeFromSelector example_env (PtrTo (StructOf ''Optional''
               [(''Name'', 0, string_type), (''ID'', 16, PtrTo int64_type)])) ''ID''
             = Inr (16, PtrTo int64_type)"
    and gN: "getOffsetAndTypeFromSelector example_env (PtrTo (StructOf ''Optional''
               [(''Name'', 0, string_type), (''ID'', 16, PtrTo int64_type)])) ''Name''
             = Inr (0, string_type)"
    and gP: "getOffsetAndTypeFromSelector example_env (PtrTo (StructOf ''Plain''
               [(''ID'', 0, int64_type)])) ''ID'' = Inr (0, int64_type)"
    by (simp_all add: getOffsetAndTypeFromSelector_def)
  have s: "supported (PtrTo int64_type)" "supported string_type" "supported int64_type"
    by (simp_all add: supported_def scalar_kind_def isIntKind_def int64_type_def string_type_def)
  have u: "used_type (PtrTo int64_type) = int64_type" "used_type string_type = string_type"
    "used_type int64_type = int64_type"
    by (simp_all add: scalar_kind_def isIntKind_def int64_type_def string_type_def)
  have k: "scalar_kind (Kind int64_type)"
    by (simp add: scalar_kind_def isIntKind_def int64_type_def)
  have f1: "fits example_env int64_type int64_type" by (rule fits_refl)
  have f2: "\<not> fits example_env string_type int64_type"
    "\<not> fits example_env int64_type string_type"
    by (simp_all add: fits_def int64_type_def string_type_def)
  have mm: "mismatch string_type int64_type = is_not string_type int64_type"
    "mismatch int64_type string_type = is_not int64_type string_type"
    by (simp_all add: mismatch_def int64_type_def string_type_def)
  have 1: "maybeAddAttribute example_env example_table (User ''any'') string_type
     = Inr (0, example_table)"
    using attribute_type_validation[of example_table "User ''any''" example_env string_type 0,
        THEN conjunct2, THEN conjunct1]
      ok a0 t by (simp add: emptyInterfaceType_def string_type_def)
  have 2: "maybeAddAttribute example_env example_table (User ''id'') string_type
     = Inl (PError (type_mismatch_for (is_not string_type int64_type) (User ''id'')))"
    using attribute_type_validation[of example_table "User ''id''" example_env string_type 1,
        THEN conjunct2, THEN conjunct1]
      ok a1 t by (simp add: int64_type_def string_type_def)
  have 3: "\<exists>f. addTypeAttrMapping example_env example_table (User ''id'') (PtrTo example_optional) ''ID''
          = Inr (f, example_table) \<and> attr f = 1 \<and> field_typ f = int64_type"
    using attribute_type_validation[where sb = example_table and a = "User ''id''"
        and E = example_env and ord = 1 and t = "PtrTo example_optional" and sel = "''ID''"
        and off = 16 and cur = "PtrTo int64_type",
        THEN conjunct2, THEN conjunct2, THEN conjunct2, THEN conjunct2, THEN conjunct2,
        THEN conjunct1]
      ok a1 t gI s(1) f1 by (simp add: u k example_optional_def)
  have 4: "addTypeAttrMapping example_env example_table (User ''id'') (PtrTo example_optional) ''Name''
     = Inl (PError (type_mismatch_for (is_not string_type int64_type) (User ''id'')))"
    using attribute_type_validation[where sb = example_table and a = "User ''id''"
        and E = example_env and ord = 1 and t = "PtrTo example_optional" and sel = "''Name''"
        and off = 0 and cur = string_type,
        THEN conjunct2, THEN conjunct2, THEN conjunct2, THEN conjunct2, THEN conjunct2,
        THEN conjunct1]
      ok a1 t gN s(2) f2(1) by (simp add: u mm example_optional_def)
  have 5: "NewSchema example_env ''s''
       \<lparr>attrTypes' = [(User ''id'', string_type)],
        entityMappings = [(PtrTo example_plain, [(User ''id'', [''ID''])])]\<rparr>
     = (None, Some (failed_to_construct_schema
                      (type_mismatch_for (is_not int64_type string_type) (User ''id''))))"
    using attribute_type_validation[where E = example_env and a = "User ''id''"
        and sn = "''Plain''" and fs = "[(''ID'', 0, int64_type)]" and sel = "''ID''"
        and off = 0 and cur = int64_type and prev = string_type and n = "''s''"
        and sels = "[]" and ams = "[]" and tms = "[]",
        THEN conjunct2, THEN conjunct2, THEN conjunct2, THEN conjunct2, THEN conjunct2,
        THEN conjunct2, THEN conjunct1]
      mx gP s(3) f2(2) by (simp add: u mm example_plain_def)
  have 6: "NewSchema example_env ''s'' example_mismatch
     = (None, Some (failed_to_construct_schema
                      (type_mismatch_for (is_not string_type int64_type) (User ''id''))))"
    using attribute_type_validation[where E = example_env and a = "User ''id''"
        and sn = "''Plain''" and fs = "[(''ID'', 0, int64_type)]" and sel = "''ID''"
        and off = 0 and cur = int64_type
        and ?sn2.0 = "''Optional''"
        and ?fs2.0 = "[(''Name'', 0, string_type), (''ID'', 16, PtrTo int64_type)]"
        and ?sel2.0 = "''Name''" and ?off2.0 = 0 and ?cur2.0 = string_type and n = "''s''"
        and sels = "[]" and ams = "[]" and tms = "[]",
        THEN conjunct2, THEN conjunct2, THEN conjunct2, THEN conjunct2, THEN conjunct2,
        THEN conjunct2, THEN conjunct2, THEN conjunct1]
      mx gP gN s(2,3) f2(1)
    by (simp add: u mm example_mismatch_def example_plain_def example_optional_def)
  show ?thesis using 1 2 3 4 5 6 by simp
qed

text \<open>
  C4, the counterexample. The attribute \<open>k\<close> is declared with the interface \<^verbatim>\<open>Stringer\<close>, and
  mapped to a field of the type \<^verbatim>\<open>*ID\<close>. The field's type \<^verbatim>\<open>*ID\<close> implements the interface;
  the construction fails all the same, since the type compared is the element type \<^verbatim>\<open>ID\<close>,
  which does not.
\<close>

theorem pointer_receiver_counterexample:
  "Implements example_pointer_methods (PtrTo id_type) stringer_type = Inr True \<and>
   getOffsetAndTypeFromSelector example_pointer_methods (PtrTo example_keyed) ''Key''
     = Inr (0, PtrTo id_type) \<and>
   NewSchema example_pointer_methods ''s'' example_keyed_mappings
     = (None, Some (failed_to_construct_schema
                      (type_mismatch_for (does_not_implement id_type stringer_type) (User ''k''))))"
  by (simp add: NewSchema_def build_simps entity_simps example_pointer_methods_def
      example_keyed_mappings_def example_keyed_def id_type_def stringer_type_def string_type_def)

text \<open>
  C5 (as amended). For a scalar field, \<^verbatim>\<open>comparableValue\<close> returns a pointer with the
  canonical comparable type: for a plain field the address of the field in the entity, for
  an optional field the pointer stored in the field, or nil when the field is unset. Two
  distinct entities with equal scalar field values so produce results that point to equal
  values (the pointee is the field's value with the comparable type), the results
  themselves, for a plain field, being two different pointers; two unset optional fields
  both give nil, and a set and an unset one give unequal results. For a struct-reference
  field the result is the pointer stored in the field, or nil: two such fields that point to
  different entities produce unequal results, whatever the entities hold.
\<close>

theorem comparable_value_semantics:
  assumes "addTypeAttrMapping E sb a t sel = Inr (f, sb')"
    and "getOffsetAndTypeFromSelector E t sel = Inr (off, cur)"
  shows
  "(scalar_kind (Kind cur) \<longrightarrow>
      comparableValue f h u1 = Some (I_ptr (PtrTo (getComparableType cur)) (u1 + off)) \<and>
      (u1 \<noteq> u2 \<longrightarrow> comparableValue f h u1 \<noteq> comparableValue f h u2) \<and>
      (u1 + off \<noteq> 0 \<longrightarrow>
         Option.bind (comparableValue f h u1) (pointee h)
           = Interface h (Stored (getComparableType cur) (u1 + off))) \<and>
      (u1 + off \<noteq> 0 \<and> u2 + off \<noteq> 0 \<and> h (u1 + off) = h (u2 + off) \<longrightarrow>
         Option.bind (comparableValue f h u1) (pointee h)
           = Option.bind (comparableValue f h u2) (pointee h))) \<and>
   (cur = PtrTo T \<and> scalar_kind (Kind T) \<and> u1 + off \<noteq> 0 \<and> h (u1 + off) = CPtr p1 \<longrightarrow>
      comparableValue f h u1
        = Some (if p1 = 0 then nil else I_ptr (PtrTo (getComparableType T)) p1)) \<and>
   (cur = PtrTo T \<and> scalar_kind (Kind T) \<and> u1 + off \<noteq> 0 \<and> u2 + off \<noteq> 0 \<and>
    h (u1 + off) = CPtr 0 \<and> h (u2 + off) = CPtr 0 \<longrightarrow>
      comparableValue f h u1 = Some nil \<and> comparableValue f h u2 = Some nil) \<and>
   (cur = PtrTo T \<and> scalar_kind (Kind T) \<and> u1 + off \<noteq> 0 \<and> u2 + off \<noteq> 0 \<and>
    h (u1 + off) = CPtr p1 \<and> h (u2 + off) = CPtr 0 \<and> p1 \<noteq> 0 \<longrightarrow>
      comparableValue f h u1 \<noteq> comparableValue f h u2) \<and>
   (cur = PtrTo T \<and> scalar_kind (Kind T) \<and> u1 + off \<noteq> 0 \<and> u2 + off \<noteq> 0 \<and>
    h (u1 + off) = CPtr p1 \<and> h (u2 + off) = CPtr p2 \<and> p1 \<noteq> 0 \<and> p2 \<noteq> 0 \<and> h p1 = h p2 \<longrightarrow>
      comparableValue f h u1 = Some (I_ptr (PtrTo (getComparableType T)) p1) \<and>
      comparableValue f h u2 = Some (I_ptr (PtrTo (getComparableType T)) p2) \<and>
      Option.bind (comparableValue f h u1) (pointee h)
        = Interface h (Stored (getComparableType T) p1) \<and>
      Option.bind (comparableValue f h u1) (pointee h)
        = Option.bind (comparableValue f h u2) (pointee h)) \<and>
   (cur = PtrTo S \<and> Kind S = reflect_Struct \<and> u1 + off \<noteq> 0 \<and> h (u1 + off) = CPtr p1 \<longrightarrow>
      comparableValue f h u1 = Some (if p1 = 0 then nil else I_ptr (PtrTo S) p1)) \<and>
   (cur = PtrTo S \<and> Kind S = reflect_Struct \<and> u1 + off \<noteq> 0 \<and> u2 + off \<noteq> 0 \<and>
    h (u1 + off) = CPtr p1 \<and> h (u2 + off) = CPtr p2 \<and> p1 \<noteq> p2 \<longrightarrow>
      comparableValue f h u1 \<noteq> comparableValue f h u2)"
proof (intro conjI impI)
  assume c: "scalar_kind (Kind cur)"
  note P = comparableValue_plain[OF assms c]
  show "comparableValue f h u1 = Some (I_ptr (PtrTo (getComparableType cur)) (u1 + off))"
    by (rule P)
  show "comparableValue f h u1 \<noteq> comparableValue f h u2" if "u1 \<noteq> u2"
    using that by (simp add: P)
  show "Option.bind (comparableValue f h u1) (pointee h)
           = Interface h (Stored (getComparableType cur) (u1 + off))" if "u1 + off \<noteq> 0"
    using that by (simp add: P pointee_def)
  show "Option.bind (comparableValue f h u1) (pointee h)
           = Option.bind (comparableValue f h u2) (pointee h)"
    if "u1 + off \<noteq> 0 \<and> u2 + off \<noteq> 0 \<and> h (u1 + off) = h (u2 + off)"
    using that by (simp add: P pointee_def)
next
  assume c: "cur = PtrTo T \<and> scalar_kind (Kind T) \<and> u1 + off \<noteq> 0 \<and> h (u1 + off) = CPtr p1"
  have g: "getOffsetAndTypeFromSelector E t sel = Inr (off, PtrTo T)" using assms(2) c by simp
  show "comparableValue f h u1
        = Some (if p1 = 0 then nil else I_ptr (PtrTo (getComparableType T)) p1)"
    using comparableValue_optional[OF assms(1) g, of u1 h p1] c by simp
next
  assume c: "cur = PtrTo T \<and> scalar_kind (Kind T) \<and> u1 + off \<noteq> 0 \<and> u2 + off \<noteq> 0 \<and>
    h (u1 + off) = CPtr 0 \<and> h (u2 + off) = CPtr 0"
  have g: "getOffsetAndTypeFromSelector E t sel = Inr (off, PtrTo T)" using assms(2) c by simp
  show "comparableValue f h u1 = Some nil"
    using comparableValue_optional[OF assms(1) g, of u1 h 0] c by simp
  show "comparableValue f h u2 = Some nil"
    using comparableValue_optional[OF assms(1) g, of u2 h 0] c by simp
next
  assume c: "cur = PtrTo T \<and> scalar_kind (Kind T) \<and> u1 + off \<noteq> 0 \<and> u2 + off \<noteq> 0 \<and>
    h (u1 + off) = CPtr p1 \<and> h (u2 + off) = CPtr 0 \<and> p1 \<noteq> 0"
  have g: "getOffsetAndTypeFromSelector E t sel = Inr (off, PtrTo T)" using assms(2) c by simp
  have 1: "comparableValue f h u1 = Some (I_ptr (PtrTo (getComparableType T)) p1)"
    using comparableValue_optional[OF assms(1) g, of u1 h p1] c by simp
  have 2: "comparableValue f h u2 = Some nil"
    using comparableValue_optional[OF assms(1) g, of u2 h 0] c by simp
  show "comparableValue f h u1 \<noteq> comparableValue f h u2" by (simp add: 1 2)
next
  assume c: "cur = PtrTo T \<and> scalar_kind (Kind T) \<and> u1 + off \<noteq> 0 \<and> u2 + off \<noteq> 0 \<and>
    h (u1 + off) = CPtr p1 \<and> h (u2 + off) = CPtr p2 \<and> p1 \<noteq> 0 \<and> p2 \<noteq> 0 \<and> h p1 = h p2"
  have g: "getOffsetAndTypeFromSelector E t sel = Inr (off, PtrTo T)" using assms(2) c by simp
  have 1: "comparableValue f h u1 = Some (I_ptr (PtrTo (getComparableType T)) p1)"
    using comparableValue_optional[OF assms(1) g, of u1 h p1] c by simp
  have 2: "comparableValue f h u2 = Some (I_ptr (PtrTo (getComparableType T)) p2)"
    using comparableValue_optional[OF assms(1) g, of u2 h p2] c by simp
  show "comparableValue f h u1 = Some (I_ptr (PtrTo (getComparableType T)) p1)" by (rule 1)
  show "comparableValue f h u2 = Some (I_ptr (PtrTo (getComparableType T)) p2)" by (rule 2)
  show "Option.bind (comparableValue f h u1) (pointee h)
        = Interface h (Stored (getComparableType T) p1)"
    using c by (simp add: 1 pointee_def)
  show "Option.bind (comparableValue f h u1) (pointee h)
        = Option.bind (comparableValue f h u2) (pointee h)"
    using c by (simp add: 1 2 pointee_def)
next
  assume c: "cur = PtrTo S \<and> Kind S = reflect_Struct \<and> u1 + off \<noteq> 0 \<and> h (u1 + off) = CPtr p1"
  have g: "getOffsetAndTypeFromSelector E t sel = Inr (off, PtrTo S)" using assms(2) c by simp
  show "comparableValue f h u1 = Some (if p1 = 0 then nil else I_ptr (PtrTo S) p1)"
    using comparableValue_struct[OF assms(1) g, of u1 h p1] c by simp
next
  assume c: "cur = PtrTo S \<and> Kind S = reflect_Struct \<and> u1 + off \<noteq> 0 \<and> u2 + off \<noteq> 0 \<and>
    h (u1 + off) = CPtr p1 \<and> h (u2 + off) = CPtr p2 \<and> p1 \<noteq> p2"
  have g: "getOffsetAndTypeFromSelector E t sel = Inr (off, PtrTo S)" using assms(2) c by simp
  have 1: "comparableValue f h u1 = Some (if p1 = 0 then nil else I_ptr (PtrTo S) p1)"
    using comparableValue_struct[OF assms(1) g, of u1 h p1] c by simp
  have 2: "comparableValue f h u2 = Some (if p2 = 0 then nil else I_ptr (PtrTo S) p2)"
    using comparableValue_struct[OF assms(1) g, of u2 h p2] c by simp
  show "comparableValue f h u1 \<noteq> comparableValue f h u2"
    using c unfolding 1 2 by auto
qed

theorem comparable_value_semantics_witness:
  "(case addTypeAttrMapping example_env (new_Schema ''s'') (User ''id'') (PtrTo example_record) ''ID'' of
      Inr (f, sb) \<Rightarrow>
        Option.bind (comparableValue f example_memory 64) (pointee example_memory)
          = Some (I_int int64_type 5) \<and>
        Option.bind (comparableValue f example_memory 128) (pointee example_memory)
          = Some (I_int int64_type 5)
    | Inl p \<Rightarrow> False) \<and>
   (case addTypeAttrMapping example_env (new_Schema ''s'') (User ''opt'') (PtrTo example_record) ''Opt'' of
      Inr (f, sb) \<Rightarrow>
        comparableValue f example_memory 64 = Some (I_ptr (PtrTo int64_type) 256) \<and>
        comparableValue f example_memory 128 = Some nil
    | Inl p \<Rightarrow> False) \<and>
   (case addTypeAttrMapping example_env (new_Schema ''s'') (User ''ref'') (PtrTo example_record) ''Ref'' of
      Inr (f, sb) \<Rightarrow> comparableValue f example_memory 64 \<noteq> comparableValue f example_memory 128
    | Inl p \<Rightarrow> False)"
proof -
  have g: "getOffsetAndTypeFromSelector E (PtrTo example_record) ''ID'' = Inr (0, int64_type)" for E
    by (simp add: getOffsetAndTypeFromSelector_def example_record_def)
  have k: "isIntKind (Kind int64_type)" by (simp add: int64_type_def isIntKind_def)
  then have sk: "scalar_kind (Kind int64_type)" by (simp add: scalar_kind_def)
  have "\<exists>f sb. addTypeAttrMapping example_env (new_Schema ''s'') (User ''id'')
                  (PtrTo example_record) ''ID'' = Inr (f, sb)"
    by (simp add: addTypeAttrMapping_def g makeFieldFlags_plain(2)[OF k] flags_int
        maybeAddAttribute_def new_Schema_def example_env_def)
  then obtain f sb where a: "addTypeAttrMapping example_env (new_Schema ''s'') (User ''id'')
                  (PtrTo example_record) ''ID'' = Inr (f, sb)" by blast
  note t = comparable_value_semantics[OF a g, THEN conjunct1]
  have ct: "getComparableType int64_type = int64_type" by (simp add: int64_type_def isIntKind_def)
  have r64: "Interface example_memory (Stored int64_type 64) = Some (I_int int64_type 5)"
    and r128: "Interface example_memory (Stored int64_type 128) = Some (I_int int64_type 5)"
    by (simp_all add: example_memory_def int64_type_def isIntKind_def)
  have 1: "Option.bind (comparableValue f example_memory 64) (pointee example_memory)
          = Some (I_int int64_type 5)"
  proof -
    have "(64::uintptr) + 0 \<noteq> 0" by simp
    with t[of example_memory 64 64] sk
    have "Option.bind (comparableValue f example_memory 64) (pointee example_memory)
            = Interface example_memory (Stored (getComparableType int64_type) (64 + 0))"
      by blast
    then show ?thesis by (simp only: ct add_0_right r64)
  qed
  have 2: "Option.bind (comparableValue f example_memory 128) (pointee example_memory)
          = Some (I_int int64_type 5)"
  proof -
    have "(128::uintptr) + 0 \<noteq> 0" by simp
    with t[of example_memory 128 128] sk
    have "Option.bind (comparableValue f example_memory 128) (pointee example_memory)
            = Interface example_memory (Stored (getComparableType int64_type) (128 + 0))"
      by blast
    then show ?thesis by (simp only: ct add_0_right r128)
  qed
  have go: "getOffsetAndTypeFromSelector E (PtrTo example_record) ''Opt'' = Inr (8, PtrTo int64_type)"
    for E by (simp add: getOffsetAndTypeFromSelector_def example_record_def)
  have "\<exists>f sb. addTypeAttrMapping example_env (new_Schema ''s'') (User ''opt'')
                  (PtrTo example_record) ''Opt'' = Inr (f, sb)"
    by (simp add: addTypeAttrMapping_def go makeFieldFlags_ptr(2)[OF k] flags_ptr_int
        maybeAddAttribute_def new_Schema_def example_env_def)
  then obtain fo sbo where ao: "addTypeAttrMapping example_env (new_Schema ''s'') (User ''opt'')
                  (PtrTo example_record) ''Opt'' = Inr (fo, sbo)" by blast
  note to = comparable_value_semantics[OF ao go, THEN conjunct2, THEN conjunct1]
  have 3: "comparableValue fo example_memory 64 = Some (I_ptr (PtrTo int64_type) 256)"
    using to[of int64_type 64 example_memory 256] sk
    by (simp add: example_memory_def ct)
  have 4: "comparableValue fo example_memory 128 = Some nil"
    using to[of int64_type 128 example_memory 0] sk
    by (simp add: example_memory_def)
  have g': "getOffsetAndTypeFromSelector E (PtrTo example_record) ''Ref'' = Inr (32, PtrTo example_inner)" for E
    by (simp add: getOffsetAndTypeFromSelector_def example_record_def)
  have ks: "Kind example_inner = reflect_Struct" by (simp add: example_inner_def)
  have "\<exists>f sb. addTypeAttrMapping example_env (new_Schema ''s'') (User ''ref'')
                  (PtrTo example_record) ''Ref'' = Inr (f, sb)"
    by (simp add: addTypeAttrMapping_def g' makeFieldFlags_ptr(4)[OF ks] flags_ptr_struct
        maybeAddAttribute_def new_Schema_def example_env_def)
  then obtain f' sb' where a': "addTypeAttrMapping example_env (new_Schema ''s'') (User ''ref'')
                  (PtrTo example_record) ''Ref'' = Inr (f', sb')" by blast
  have 5: "comparableValue f' example_memory 64 \<noteq> comparableValue f' example_memory 128"
    using comparable_value_semantics[OF a' g', THEN conjunct2, THEN conjunct2, THEN conjunct2,
        THEN conjunct2, THEN conjunct2, THEN conjunct2,
        of example_inner 64 128 example_memory 512 640] ks
    by (simp add: example_memory_def)
  show ?thesis unfolding a ao a' using 1 2 3 4 5 by simp
qed

text \<open>
  C5, the counterexample. The claim as it is written fails for a plain scalar field: two
  records at different addresses that both hold 5 give two different pointers.
\<close>

theorem comparable_value_counterexample:
  "(case addTypeAttrMapping example_env (new_Schema ''s'') (User ''id'') (PtrTo example_record) ''ID'' of
      Inr (f, sb) \<Rightarrow>
        value' f example_memory 64 = Some (I_int int64_type 5) \<and>
        value' f example_memory 128 = Some (I_int int64_type 5) \<and>
        comparableValue f example_memory 64 = Some (I_ptr (PtrTo int64_type) 64) \<and>
        comparableValue f example_memory 128 = Some (I_ptr (PtrTo int64_type) 128) \<and>
        comparableValue f example_memory 64 \<noteq> comparableValue f example_memory 128
    | Inl p \<Rightarrow> False)"
  by (simp add: addTypeAttrMapping_def getOffsetAndTypeFromSelector_def example_record_def
      makeFieldFlags_def isIntKind_def isUintKind_def isPtr_0 flags_int int64_type_def
      maybeAddAttribute_def new_Schema_def example_env_def Let_def
      value_block_def comparableValue_block_def makeValueGetter_def NewAt_def
      example_memory_def)

text \<open>
  C6. For a field of an optional integer type (a pointer to a type of a signed or of an
  unsigned integer kind): when the pointer is nil, \<^verbatim>\<open>value\<close> returns nil and \<^verbatim>\<open>inline\<close>
  returns \<open>(0, false)\<close>; when it points to the integer \<open>v\<close>, \<^verbatim>\<open>value\<close> returns \<open>v\<close> (with the
  element type) and \<^verbatim>\<open>inline\<close> returns \<open>(v, true)\<close>, \<open>v\<close> converted to \<^verbatim>\<open>uintptr\<close>: for \<open>v = 7\<close>,
  \<open>7\<close> and \<open>(7, true)\<close>. For a field of a string kind, plain or optional, and for a field that
  points to a struct, \<^verbatim>\<open>inline\<close> returns \<open>(0, false)\<close> on every memory and entity.
\<close>

theorem accessor_correctness:
  assumes "addTypeAttrMapping E sb a t sel = Inr (f, sb')"
    and "getOffsetAndTypeFromSelector E t sel = Inr (off, cur)"
  shows
  "(cur = PtrTo T \<and> isIntKind (Kind T) \<and> u + off \<noteq> 0 \<and> h (u + off) = CPtr 0 \<longrightarrow>
      value' f h u = Some nil \<and> inline f h u = Some (0, False)) \<and>
   (cur = PtrTo T \<and> isIntKind (Kind T) \<and> u + off \<noteq> 0 \<and> h (u + off) = CPtr p \<and> p \<noteq> 0 \<and>
    h p = CInt v \<longrightarrow>
      value' f h u = Some (I_int T v) \<and> inline f h u = Some (word_of_int v, True)) \<and>
   (cur = PtrTo T \<and> isIntKind (Kind T) \<and> u + off \<noteq> 0 \<and> h (u + off) = CPtr p \<and> p \<noteq> 0 \<and>
    h p = CInt 7 \<longrightarrow>
      value' f h u = Some (I_int T 7) \<and> inline f h u = Some (7, True)) \<and>
   (cur = PtrTo T \<and> isUintKind (Kind T) \<and> u + off \<noteq> 0 \<and> h (u + off) = CPtr 0 \<longrightarrow>
      value' f h u = Some nil \<and> inline f h u = Some (0, False)) \<and>
   (cur = PtrTo T \<and> isUintKind (Kind T) \<and> u + off \<noteq> 0 \<and> h (u + off) = CPtr p \<and> p \<noteq> 0 \<and>
    h p = CUint w \<longrightarrow>
      value' f h u = Some (I_uint T w) \<and> inline f h u = Some (word_of_nat w, True)) \<and>
   (cur = PtrTo T \<and> isUintKind (Kind T) \<and> u + off \<noteq> 0 \<and> h (u + off) = CPtr p \<and> p \<noteq> 0 \<and>
    h p = CUint 7 \<longrightarrow>
      value' f h u = Some (I_uint T 7) \<and> inline f h u = Some (7, True)) \<and>
   (Kind cur = reflect_String \<or>
    (\<exists>S. cur = PtrTo S \<and> (Kind S = reflect_String \<or> Kind S = reflect_Struct)) \<longrightarrow>
      inline f h u = Some (0, False))"
proof (intro conjI impI)
  assume c: "cur = PtrTo T \<and> isIntKind (Kind T) \<and> u + off \<noteq> 0 \<and> h (u + off) = CPtr 0"
  then have fl: "makeFieldFlags cur = Inr (pointerField OR intField, True)"
    by (simp add: makeFieldFlags_ptr)
  note F = addTypeAttrMapping_field[OF assms fl]
  show "value' f h u = Some nil" using c
    by (simp add: F(2) value_block_def flags_ptr_int makeValueGetter_def NewAt_def Let_def)
  show "inline f h u = Some (0, False)" using c
    by (simp add: F(3) inline_block_def flags_ptr_int makeValueGetter_def NewAt_def Let_def)
next
  assume c: "cur = PtrTo T \<and> isIntKind (Kind T) \<and> u + off \<noteq> 0 \<and> h (u + off) = CPtr p \<and>
    p \<noteq> 0 \<and> h p = CInt v"
  then have fl: "makeFieldFlags cur = Inr (pointerField OR intField, True)"
    by (simp add: makeFieldFlags_ptr)
  note F = addTypeAttrMapping_field[OF assms fl]
  show "value' f h u = Some (I_int T v)" using c
    by (simp add: F(2) value_block_def flags_ptr_int makeValueGetter_def NewAt_def Let_def
        int_kind_facts)
  show "inline f h u = Some (word_of_int v, True)" using c
    by (simp add: F(3) inline_block_def flags_ptr_int makeValueGetter_def NewAt_def Let_def)
next
  assume c: "cur = PtrTo T \<and> isIntKind (Kind T) \<and> u + off \<noteq> 0 \<and> h (u + off) = CPtr p \<and>
    p \<noteq> 0 \<and> h p = CInt 7"
  then have fl: "makeFieldFlags cur = Inr (pointerField OR intField, True)"
    by (simp add: makeFieldFlags_ptr)
  note F = addTypeAttrMapping_field[OF assms fl]
  show "value' f h u = Some (I_int T 7)" using c
    by (simp add: F(2) value_block_def flags_ptr_int makeValueGetter_def NewAt_def Let_def
        int_kind_facts)
  show "inline f h u = Some (7, True)" using c
    by (simp add: F(3) inline_block_def flags_ptr_int makeValueGetter_def NewAt_def Let_def)
next
  assume c: "cur = PtrTo T \<and> isUintKind (Kind T) \<and> u + off \<noteq> 0 \<and> h (u + off) = CPtr 0"
  then have fl: "makeFieldFlags cur = Inr (pointerField OR uintField, True)"
    by (simp add: makeFieldFlags_ptr)
  note F = addTypeAttrMapping_field[OF assms fl]
  show "value' f h u = Some nil" using c
    by (simp add: F(2) value_block_def flags_ptr_uint makeValueGetter_def NewAt_def Let_def)
  show "inline f h u = Some (0, False)" using c
    by (simp add: F(3) inline_block_def flags_ptr_uint makeValueGetter_def NewAt_def Let_def)
next
  assume c: "cur = PtrTo T \<and> isUintKind (Kind T) \<and> u + off \<noteq> 0 \<and> h (u + off) = CPtr p \<and>
    p \<noteq> 0 \<and> h p = CUint w"
  then have fl: "makeFieldFlags cur = Inr (pointerField OR uintField, True)"
    by (simp add: makeFieldFlags_ptr)
  note F = addTypeAttrMapping_field[OF assms fl]
  show "value' f h u = Some (I_uint T w)" using c
    by (simp add: F(2) value_block_def flags_ptr_uint makeValueGetter_def NewAt_def Let_def
        uint_kind_facts)
  show "inline f h u = Some (word_of_nat w, True)" using c
    by (simp add: F(3) inline_block_def flags_ptr_uint makeValueGetter_def NewAt_def Let_def)
next
  assume c: "cur = PtrTo T \<and> isUintKind (Kind T) \<and> u + off \<noteq> 0 \<and> h (u + off) = CPtr p \<and>
    p \<noteq> 0 \<and> h p = CUint 7"
  then have fl: "makeFieldFlags cur = Inr (pointerField OR uintField, True)"
    by (simp add: makeFieldFlags_ptr)
  note F = addTypeAttrMapping_field[OF assms fl]
  show "value' f h u = Some (I_uint T 7)" using c
    by (simp add: F(2) value_block_def flags_ptr_uint makeValueGetter_def NewAt_def Let_def
        uint_kind_facts)
  show "inline f h u = Some (7, True)" using c
    by (simp add: F(3) inline_block_def flags_ptr_uint makeValueGetter_def NewAt_def Let_def)
next
  assume c: "Kind cur = reflect_String \<or>
    (\<exists>S. cur = PtrTo S \<and> (Kind S = reflect_String \<or> Kind S = reflect_Struct))"
  then consider "Kind cur = reflect_String"
    | S where "cur = PtrTo S" "Kind S = reflect_String"
    | S where "cur = PtrTo S" "Kind S = reflect_Struct" by blast
  then show "inline f h u = Some (0, False)"
  proof cases
    case 1
    note F = addTypeAttrMapping_field[OF assms makeFieldFlags_plain(1)[OF 1]]
    show ?thesis by (simp add: F(3) inline_block_def flags_string Let_def)
  next
    case 2
    note F = addTypeAttrMapping_field[OF assms[unfolded 2(1)] makeFieldFlags_ptr(1)[OF 2(2)]]
    show ?thesis unfolding 2(1) by (simp add: F(3) inline_block_def flags_ptr_string Let_def)
  next
    case 3
    note F = addTypeAttrMapping_field[OF assms[unfolded 3(1)] makeFieldFlags_ptr(4)[OF 3(2)]]
    show ?thesis unfolding 3(1) by (simp add: F(3) inline_block_def flags_ptr_struct Let_def)
  qed
qed

theorem accessor_correctness_witness:
  "(case addTypeAttrMapping example_env (new_Schema ''s'') (User ''opt'') (PtrTo example_record) ''Opt'' of
      Inr (f, sb) \<Rightarrow>
        value' f example_memory 64 = Some (I_int int64_type 7) \<and>
        inline f example_memory 64 = Some (7, True) \<and>
        value' f example_memory 128 = Some nil \<and>
        inline f example_memory 128 = Some (0, False)
    | Inl p \<Rightarrow> False) \<and>
   (case addTypeAttrMapping example_env (new_Schema ''s'') (User ''n'') (PtrTo example_record) ''Count'' of
      Inr (f, sb) \<Rightarrow>
        value' f example_memory 64 = Some (I_uint uint32_type 7) \<and>
        inline f example_memory 64 = Some (7, True) \<and>
        value' f example_memory 128 = Some nil \<and>
        inline f example_memory 128 = Some (0, False)
    | Inl p \<Rightarrow> False) \<and>
   (case addTypeAttrMapping example_env (new_Schema ''s'') (User ''name'') (PtrTo example_record) ''Name'' of
      Inr (f, sb) \<Rightarrow> inline f example_memory 64 = Some (0, False)
    | Inl p \<Rightarrow> False) \<and>
   (case addTypeAttrMapping example_env (new_Schema ''s'') (User ''ref'') (PtrTo example_record) ''Ref'' of
      Inr (f, sb) \<Rightarrow> inline f example_memory 64 = Some (0, False)
    | Inl p \<Rightarrow> False)"
proof -
  have g: "getOffsetAndTypeFromSelector E (PtrTo example_record) ''Opt'' = Inr (8, PtrTo int64_type)" for E
    by (simp add: getOffsetAndTypeFromSelector_def example_record_def)
  have k: "isIntKind (Kind int64_type)" by (simp add: int64_type_def isIntKind_def)
  have "\<exists>f sb. addTypeAttrMapping example_env (new_Schema ''s'') (User ''opt'')
                  (PtrTo example_record) ''Opt'' = Inr (f, sb)"
    by (simp add: addTypeAttrMapping_def g makeFieldFlags_ptr(2)[OF k] flags_ptr_int
        maybeAddAttribute_def new_Schema_def example_env_def)
  then obtain f sb where a: "addTypeAttrMapping example_env (new_Schema ''s'') (User ''opt'')
                  (PtrTo example_record) ''Opt'' = Inr (f, sb)" by blast
  note t = accessor_correctness[OF a g]
  have 1: "value' f example_memory 64 = Some (I_int int64_type 7) \<and>
        inline f example_memory 64 = Some (7, True)"
    using t[of int64_type 64 example_memory 256 7, THEN conjunct2, THEN conjunct2, THEN conjunct1] k
    by (simp add: example_memory_def)
  have 2: "value' f example_memory 128 = Some nil \<and>
        inline f example_memory 128 = Some (0, False)"
    using t[of int64_type 128 example_memory 0 0, THEN conjunct1] k
    by (simp add: example_memory_def)
  have gc: "getOffsetAndTypeFromSelector E (PtrTo example_record) ''Count''
              = Inr (40, PtrTo uint32_type)" for E
    by (simp add: getOffsetAndTypeFromSelector_def example_record_def)
  have ku: "isUintKind (Kind uint32_type)" by (simp add: uint32_type_def isUintKind_def)
  have "\<exists>f sb. addTypeAttrMapping example_env (new_Schema ''s'') (User ''n'')
                  (PtrTo example_record) ''Count'' = Inr (f, sb)"
    by (simp add: addTypeAttrMapping_def gc makeFieldFlags_ptr(3)[OF ku] flags_ptr_uint
        maybeAddAttribute_def new_Schema_def example_env_def)
  then obtain fc sbc where ac: "addTypeAttrMapping example_env (new_Schema ''s'') (User ''n'')
                  (PtrTo example_record) ''Count'' = Inr (fc, sbc)" by blast
  note tc = accessor_correctness[OF ac gc, THEN conjunct2, THEN conjunct2, THEN conjunct2]
  have 3: "value' fc example_memory 64 = Some (I_uint uint32_type 7) \<and>
        inline fc example_memory 64 = Some (7, True)"
    using tc[of uint32_type 64 example_memory 264 7, THEN conjunct2, THEN conjunct2, THEN conjunct1] ku
    by (simp add: example_memory_def)
  have 4: "value' fc example_memory 128 = Some nil \<and>
        inline fc example_memory 128 = Some (0, False)"
    using tc[of uint32_type 128 example_memory 0 0, THEN conjunct1] ku
    by (simp add: example_memory_def)
  have gn: "getOffsetAndTypeFromSelector E (PtrTo example_record) ''Name''
              = Inr (16, string_type)" for E
    by (simp add: getOffsetAndTypeFromSelector_def example_record_def)
  have kn: "Kind string_type = reflect_String" by (simp add: string_type_def)
  have "\<exists>f sb. addTypeAttrMapping example_env (new_Schema ''s'') (User ''name'')
                  (PtrTo example_record) ''Name'' = Inr (f, sb)"
    by (simp add: addTypeAttrMapping_def gn makeFieldFlags_plain(1)[OF kn] flags_string
        maybeAddAttribute_def new_Schema_def example_env_def)
  then obtain fn sbn where an: "addTypeAttrMapping example_env (new_Schema ''s'') (User ''name'')
                  (PtrTo example_record) ''Name'' = Inr (fn, sbn)" by blast
  have 5: "inline fn example_memory 64 = Some (0, False)"
    using accessor_correctness[OF an gn, THEN conjunct2, THEN conjunct2, THEN conjunct2,
        THEN conjunct2, THEN conjunct2, THEN conjunct2, of example_memory 64] kn
    by simp
  have gr: "getOffsetAndTypeFromSelector E (PtrTo example_record) ''Ref''
              = Inr (32, PtrTo example_inner)" for E
    by (simp add: getOffsetAndTypeFromSelector_def example_record_def)
  have ks: "Kind example_inner = reflect_Struct" by (simp add: example_inner_def)
  have "\<exists>f sb. addTypeAttrMapping example_env (new_Schema ''s'') (User ''ref'')
                  (PtrTo example_record) ''Ref'' = Inr (f, sb)"
    by (simp add: addTypeAttrMapping_def gr makeFieldFlags_ptr(4)[OF ks] flags_ptr_struct
        maybeAddAttribute_def new_Schema_def example_env_def)
  then obtain fr sbr where ar: "addTypeAttrMapping example_env (new_Schema ''s'') (User ''ref'')
                  (PtrTo example_record) ''Ref'' = Inr (fr, sbr)" by blast
  have 6: "inline fr example_memory 64 = Some (0, False)"
    using accessor_correctness[OF ar gr, THEN conjunct2, THEN conjunct2, THEN conjunct2,
        THEN conjunct2, THEN conjunct2, THEN conjunct2, of example_memory 64] ks
    by simp
  show ?thesis unfolding a ac an ar using 1 2 3 4 5 6 by simp
qed

text \<open>
  C7. The attributes registered are those of the caller and, in lines 134 to 137 of
  \<^verbatim>\<open>buildSchema\<close>, \<^verbatim>\<open>Self\<close> and \<^verbatim>\<open>Type\<close>. A build that succeeds has registered at most
  \<^verbatim>\<open>maxUserAttribute\<close> attributes, and a build is stopped for too many attributes only when
  more than \<^verbatim>\<open>maxUserAttribute\<close> are registered. At the boundary both happen: declarations
  of distinct attributes of the caller build a schema when with \<^verbatim>\<open>Self\<close> and \<^verbatim>\<open>Type\<close> they
  are exactly \<^verbatim>\<open>maxUserAttribute\<close> (or fewer), and fail with "too many attributes" when
  they are one more (or more).
\<close>

theorem max_attribute_boundary:
  "(\<forall>sc. buildSchema E n m = Inr sc \<longrightarrow>
      length (attrs sc) = card (set (registrations m)) \<and>
      card (set (registrations m)) \<le> maxUserAttribute E) \<and>
   (buildSchema E n m = Inl (PError too_many_attributes) \<longrightarrow>
      maxUserAttribute E < card (set (registrations m))) \<and>
   (distinct (map fst decls) \<and> Self \<notin> fst ` set decls \<and> Type \<notin> fst ` set decls \<longrightarrow>
      card (set (registrations \<lparr>attrTypes' = decls, entityMappings = []\<rparr>)) = length decls + 2 \<and>
      (length decls + 2 \<le> maxUserAttribute E \<longrightarrow>
         (\<exists>sc. buildSchema E n \<lparr>attrTypes' = decls, entityMappings = []\<rparr> = Inr sc)) \<and>
      (maxUserAttribute E < length decls + 2 \<longrightarrow>
         buildSchema E n \<lparr>attrTypes' = decls, entityMappings = []\<rparr>
           = Inl (PError too_many_attributes)))"
proof (intro conjI allI impI)
  fix sc assume b: "buildSchema E n m = Inr sc"
  show "length (attrs sc) = card (set (registrations m))"
    using buildSchema_length_attrs[OF b] .
  show "card (set (registrations m)) \<le> maxUserAttribute E"
    using buildSchema_length_attrs[OF b] buildSchema_Inr(1)[OF b] by (simp add: valid_schema_def)
next
  assume "buildSchema E n m = Inl (PError too_many_attributes)"
  then show "maxUserAttribute E < card (set (registrations m))" by (rule buildSchema_too_many)
next
  assume a: "distinct (map fst decls) \<and> Self \<notin> fst ` set decls \<and> Type \<notin> fst ` set decls"
  have "set (registrations \<lparr>attrTypes' = decls, entityMappings = []\<rparr>)
          = insert Self (insert Type (fst ` set decls))"
    by (auto simp: registrations_def caller_registrations_def)
  then show "card (set (registrations \<lparr>attrTypes' = decls, entityMappings = []\<rparr>)) = length decls + 2"
    using a distinct_card[of "map fst decls"] by simp
next
  assume a: "distinct (map fst decls) \<and> Self \<notin> fst ` set decls \<and> Type \<notin> fst ` set decls"
    and l: "length decls + 2 \<le> maxUserAttribute E"
  show "\<exists>sc. buildSchema E n \<lparr>attrTypes' = decls, entityMappings = []\<rparr> = Inr sc"
    using buildSchema_declarations[of decls E n] a l by blast
next
  assume a: "distinct (map fst decls) \<and> Self \<notin> fst ` set decls \<and> Type \<notin> fst ` set decls"
    and l: "maxUserAttribute E < length decls + 2"
  show "buildSchema E n \<lparr>attrTypes' = decls, entityMappings = []\<rparr> = Inl (PError too_many_attributes)"
    using buildSchema_declarations[of decls E n] a l by blast
qed

theorem max_attribute_boundary_witness:
  "maxUserAttribute example_env = 5 \<and>
   card (set (registrations example_three)) = 5 \<and>
   (case buildSchema example_env ''s'' example_three of
      Inr sc \<Rightarrow> length (attrs sc) = 5 | Inl p \<Rightarrow> False) \<and>
   card (set (registrations example_four)) = 6 \<and>
   buildSchema example_env ''s'' example_four = Inl (PError too_many_attributes)"
proof -
  let ?d3 = "[(User ''a'', int64_type), (User ''b'', string_type), (User ''c'', int64_type)]"
  let ?d4 = "?d3 @ [(User ''d'', int64_type)]"
  have m: "maxUserAttribute example_env = 5" by (simp add: example_env_def)
  have h3: "distinct (map fst ?d3) \<and> Self \<notin> fst ` set ?d3 \<and> Type \<notin> fst ` set ?d3" by simp
  have h4: "distinct (map fst ?d4) \<and> Self \<notin> fst ` set ?d4 \<and> Type \<notin> fst ` set ?d4" by simp
  note t3 = max_attribute_boundary[of example_env "''s''" example_three ?d3]
  note t4 = max_attribute_boundary[of example_env "''s''" example_four ?d4]
  have c3: "card (set (registrations example_three)) = 5"
    using t3 h3 by (simp add: example_three_def)
  have c4: "card (set (registrations example_four)) = 6"
    using t4 h4 by (simp add: example_four_def)
  have "\<exists>sc. buildSchema example_env ''s'' example_three = Inr sc"
    using t3 h3 m by (simp add: example_three_def)
  then obtain sc where b3: "buildSchema example_env ''s'' example_three = Inr sc" by blast
  have l3: "length (attrs sc) = 5" using t3 b3 c3 by simp
  have b4: "buildSchema example_env ''s'' example_four = Inl (PError too_many_attributes)"
    using t4 h4 m by (simp add: example_four_def)
  show ?thesis using m c3 c4 b3 l3 b4 by simp
qed





text \<open>
  C9 (as amended). In every schema that \<^verbatim>\<open>buildSchema\<close> returns, \<^verbatim>\<open>Self\<close> and \<^verbatim>\<open>Type\<close>
  resolve to an ordinal, also when the caller declares no attribute. They are registered
  last: when neither is among the attributes the caller's declarations and mappings
  register, \<^verbatim>\<open>Self\<close> and \<^verbatim>\<open>Type\<close> take the two highest ordinals, above every attribute of
  the caller. (An attribute keeps the ordinal of its first registration, so a caller who
  registers \<^verbatim>\<open>Type\<close> first gives it ordinal 0: the counterexample.)
\<close>

theorem reserved_attributes:
  assumes "buildSchema E n m = Inr sc"
  shows "getOrdinal sc Self = (selfOrdinal sc, None) \<and>
         getOrdinal sc Type = (typeOrdinal sc, None) \<and>
         mustGetOrdinal sc Self = Inr (selfOrdinal sc) \<and>
         mustGetOrdinal sc Type = Inr (typeOrdinal sc) \<and>
         (Self \<notin> set (caller_registrations m) \<and> Type \<notin> set (caller_registrations m) \<longrightarrow>
            selfOrdinal sc = card (set (caller_registrations m)) \<and>
            typeOrdinal sc = Suc (card (set (caller_registrations m))) \<and>
            length (attrs sc) = Suc (Suc (card (set (caller_registrations m)))) \<and>
            (\<forall>a\<in>set (caller_registrations m). \<forall>i. attrToOrdinal sc a = Some i \<longrightarrow> i < selfOrdinal sc))"
proof -
  let ?c = "caller_registrations m"
  note b = buildSchema_Inr[OF assms]
  have ok: "attrs_ok sc" and s: "attrToOrdinal sc Self = Some (selfOrdinal sc)"
    and t: "attrToOrdinal sc Type = Some (typeOrdinal sc)"
    using b(1) by (simp_all add: valid_schema_def)
  have g: "getOrdinal sc Self = (selfOrdinal sc, None)" "getOrdinal sc Type = (typeOrdinal sc, None)"
    "mustGetOrdinal sc Self = Inr (selfOrdinal sc)" "mustGetOrdinal sc Type = Inr (typeOrdinal sc)"
    using s t by (simp_all add: getOrdinal_def mustGetOrdinal_def)
  have h: "selfOrdinal sc = card (set ?c) \<and> typeOrdinal sc = Suc (card (set ?c)) \<and>
           length (attrs sc) = Suc (Suc (card (set ?c))) \<and>
           (\<forall>a\<in>set ?c. \<forall>i. attrToOrdinal sc a = Some i \<longrightarrow> i < selfOrdinal sc)"
    if ns: "Self \<notin> set ?c" and nt: "Type \<notin> set ?c"
  proof -
    have regs: "registrations m = ?c @ [Self, Type]" by (simp add: registrations_def)
    have tw1: "takeWhile (\<lambda>x. x \<noteq> Self) (?c @ [Self, Type]) = ?c"
      using takeWhile_until[OF ns, of "[Type]"] by simp
    have tw2: "takeWhile (\<lambda>x. x \<noteq> Type) (?c @ [Self, Type]) = ?c @ [Self]"
      using takeWhile_until[of Type "?c @ [Self]" "[]"] nt by simp
    have so: "selfOrdinal sc = card (set ?c)"
      using buildSchema_ordinal_of[OF assms, of Self] s unfolding regs tw1 by simp
    have to: "typeOrdinal sc = Suc (card (set ?c))"
      using buildSchema_ordinal_of[OF assms, of Type] t ns unfolding regs tw2 by simp
    have len: "length (attrs sc) = Suc (Suc (card (set ?c)))"
      using buildSchema_length_attrs[OF assms] ns nt unfolding regs by simp
    have hi: "\<forall>a\<in>set ?c. \<forall>i. attrToOrdinal sc a = Some i \<longrightarrow> i < selfOrdinal sc"
    proof (intro ballI allI impI)
      fix a i assume a: "a \<in> set ?c" and i: "attrToOrdinal sc a = Some i"
      have ne: "a \<noteq> Self" "a \<noteq> Type" using a ns nt by auto
      have il: "i < length (attrs sc)" "attrs sc ! i = a"
        using attrs_ok_lookup[OF ok, of a i] i by simp_all
      have "attrs sc ! selfOrdinal sc = Self" "attrs sc ! typeOrdinal sc = Type"
        using attrs_ok_lookup[OF ok] s t by simp_all
      then have "i \<noteq> selfOrdinal sc" "i \<noteq> typeOrdinal sc" using il ne by auto
      then show "i < selfOrdinal sc" using il(1) so to len by simp
    qed
    show ?thesis using so to len hi by simp
  qed
  show ?thesis using g h by blast
qed

theorem reserved_attributes_witness:
  "(case buildSchema example_env ''s'' example_declarations of
      Inr sc \<Rightarrow> getOrdinal sc Self = (2, None) \<and> getOrdinal sc Type = (3, None) \<and>
                length (attrs sc) = 4
    | Inl p \<Rightarrow> False)"
proof -
  obtain sc where b: "buildSchema example_env ''s'' example_declarations = Inr sc"
    by (simp add: build_simps example_env_def example_declarations_def int64_type_def string_type_def)
  have r: "caller_registrations example_declarations = [User ''a'', User ''b'', User ''a'']"
    by (simp add: caller_registrations_def example_declarations_def)
  have c: "card (set (caller_registrations example_declarations)) = 2"
    unfolding r by (simp add: insert_commute)
  from reserved_attributes[OF b] show ?thesis
    unfolding b using c r by simp
qed

text \<open>
  The claim C9 as it is written fails when the caller declares \<^verbatim>\<open>Type\<close>: declared first, it
  has ordinal 0, below the caller's other attribute.
\<close>

theorem reserved_not_highest_counterexample:
  "(case buildSchema example_env ''s'' example_type_first of
      Inr sc \<Rightarrow> attrToOrdinal sc Type = Some 0 \<and> attrToOrdinal sc (User ''b'') = Some 1 \<and>
                typeOrdinal sc = 0 \<and> attrs sc = [Type, User ''b'', Self]
    | Inl p \<Rightarrow> False)"
  by (simp add: build_simps example_env_def example_type_first_def int64_type_def)

text \<open>
  C10. When the selector of a mapping resolves to a pointer to a scalar type \<open>T\<close> (a string
  or integer kind), the type registered for the attribute, and kept in the field, is \<open>T\<close>.
  So a schema that maps one attribute to a plain field of type \<open>T\<close> on one record type
  and to a field of type \<open>*T\<close> on another builds, in either order of the two record types,
  the attribute having the type \<open>T\<close>.
\<close>

theorem optional_scalar_unwrapped:
  "(addTypeAttrMapping E sb a t sel = Inr (f, sb') \<and>
    getOffsetAndTypeFromSelector E t sel = Inr (off, PtrTo T) \<and> scalar_kind (Kind T) \<longrightarrow>
      field_typ f = T \<and> maybeAddAttribute E sb a T = Inr (attr f, sb')) \<and>
   (scalar_kind (Kind T) \<and> map_of fs1 F = Some (o1, T) \<and> map_of fs2 G = Some (o2, PtrTo T) \<and>
    CHR ''.'' \<notin> set F \<and> CHR ''.'' \<notin> set G \<and> 3 \<le> maxUserAttribute E \<longrightarrow>
      (\<exists>sc. buildSchema E n
            \<lparr>attrTypes' = [],
             entityMappings = [(PtrTo (StructOf n1 fs1), [(User x, [F])]),
                               (PtrTo (StructOf n2 fs2), [(User x, [G])])]\<rparr> = Inr sc \<and>
          attrs sc = [User x, Self, Type] \<and>
          attrTypes sc = [T, emptyInterfaceType, reflectTypeType]) \<and>
      (\<exists>sc. buildSchema E n
            \<lparr>attrTypes' = [],
             entityMappings = [(PtrTo (StructOf n2 fs2), [(User x, [G])]),
                               (PtrTo (StructOf n1 fs1), [(User x, [F])])]\<rparr> = Inr sc \<and>
          attrs sc = [User x, Self, Type] \<and>
          attrTypes sc = [T, emptyInterfaceType, reflectTypeType]))"
proof (intro conjI impI)
  assume h: "addTypeAttrMapping E sb a t sel = Inr (f, sb') \<and>
    getOffsetAndTypeFromSelector E t sel = Inr (off, PtrTo T) \<and> scalar_kind (Kind T)"
  then have a: "addTypeAttrMapping E sb a t sel = Inr (f, sb')"
    and g: "getOffsetAndTypeFromSelector E t sel = Inr (off, PtrTo T)"
    and k: "scalar_kind (Kind T)" by simp_all
  obtain flags where fl: "makeFieldFlags (PtrTo T) = Inr (flags, True)"
    and pf: "isPtr flags" "isScalar flags"
    using k makeFieldFlags_ptr(1-3)[of T] flags_ptr_string flags_ptr_int flags_ptr_uint
    by (cases rule: scalar_kind_cases) blast+
  note F = addTypeAttrMapping_field[OF a g fl]
  show "field_typ f = T" using F(6) pf by simp
  then show "maybeAddAttribute E sb a T = Inr (attr f, sb')" using F(7) by simp
next
  assume h: "scalar_kind (Kind T) \<and> map_of fs1 F = Some (o1, T) \<and>
    map_of fs2 G = Some (o2, PtrTo T) \<and>
    CHR ''.'' \<notin> set F \<and> CHR ''.'' \<notin> set G \<and> 3 \<le> maxUserAttribute E"
  then show "\<exists>sc. buildSchema E n
            \<lparr>attrTypes' = [],
             entityMappings = [(PtrTo (StructOf n1 fs1), [(User x, [F])]),
                               (PtrTo (StructOf n2 fs2), [(User x, [G])])]\<rparr> = Inr sc \<and>
          attrs sc = [User x, Self, Type] \<and>
          attrTypes sc = [T, emptyInterfaceType, reflectTypeType]"
    using buildSchema_two_fields[of T fs1 F o1 T fs2 G o2 "PtrTo T" E n n1 x n2] by simp
next
  assume h: "scalar_kind (Kind T) \<and> map_of fs1 F = Some (o1, T) \<and>
    map_of fs2 G = Some (o2, PtrTo T) \<and>
    CHR ''.'' \<notin> set F \<and> CHR ''.'' \<notin> set G \<and> 3 \<le> maxUserAttribute E"
  then show "\<exists>sc. buildSchema E n
            \<lparr>attrTypes' = [],
             entityMappings = [(PtrTo (StructOf n2 fs2), [(User x, [G])]),
                               (PtrTo (StructOf n1 fs1), [(User x, [F])])]\<rparr> = Inr sc \<and>
          attrs sc = [User x, Self, Type] \<and>
          attrTypes sc = [T, emptyInterfaceType, reflectTypeType]"
    using buildSchema_two_fields[of T fs2 G o2 "PtrTo T" fs1 F o1 T E n n2 x n1] by simp
qed

theorem optional_scalar_unwrapped_witness:
  "(case buildSchema example_env ''s''
           \<lparr>attrTypes' = [],
            entityMappings = [(PtrTo example_plain, [(User ''id'', [''ID''])]),
                              (PtrTo example_optional, [(User ''id'', [''ID''])])]\<rparr> of
      Inr sc \<Rightarrow> attrs sc = [User ''id'', Self, Type] \<and>
                attrTypes sc = [int64_type, emptyInterfaceType, reflectTypeType]
    | Inl p \<Rightarrow> False)"
proof -
  let ?fs1 = "[(''ID'', 0, int64_type)]"
  let ?fs2 = "[(''Name'', 0, string_type), (''ID'', 16, PtrTo int64_type)]"
  have k: "scalar_kind (Kind int64_type)"
    by (simp add: scalar_kind_def int64_type_def isIntKind_def)
  have h: "scalar_kind (Kind int64_type) \<and> map_of ?fs1 ''ID'' = Some (0, int64_type) \<and>
    map_of ?fs2 ''ID'' = Some (16, PtrTo int64_type) \<and>
    CHR ''.'' \<notin> set ''ID'' \<and> CHR ''.'' \<notin> set ''ID'' \<and> 3 \<le> maxUserAttribute example_env"
    using k by (simp add: example_env_def)
  from optional_scalar_unwrapped[THEN conjunct2, THEN mp, OF h, THEN conjunct1,
      of "''s''" "''Plain''" "''id''" "''Optional''"]
  show ?thesis by (auto simp: example_plain_def example_optional_def)
qed

end
